theory Spec2Isabelle
  imports Main "HOL-Library.AList"
begin

section \<open>Values, documents and identifiers\<close>

text \<open>
  The server of \<^verbatim>\<open>src/index.js\<close> moves JSON objects between HTTP requests, the
  \<^verbatim>\<open>tasks\<close> collection of the store and the realtime channel. A value is a JSON
  value or an \<^verbatim>\<open>ObjectId\<close>; numbers are restricted to integers. A document (a
  JavaScript object) is a list of properties; a property that is not in the list reads
  as \<^verbatim>\<open>undefined\<close>, which is \<open>None\<close> here.
\<close>

type_synonym oid = "nat list"

datatype val =
    VNull
  | VBool bool
  | VNum int
  | VStr string
  | VOid oid
  | VArr "val list"
  | VObj "(string \<times> val) list"

type_synonym doc = "(string \<times> val) list"

text \<open>A JavaScript object holds every property name once.\<close>

definition is_object :: "doc \<Rightarrow> bool" where
  "is_object d = distinct (map fst d)"

text \<open>The test that \<^verbatim>\<open>if (x)\<close> makes on a value.\<close>

fun truthy :: "val \<Rightarrow> bool" where
  "truthy VNull = False"
| "truthy (VBool b) = b"
| "truthy (VNum n) = (n \<noteq> 0)"
| "truthy (VStr s) = (s \<noteq> [])"
| "truthy (VOid i) = True"
| "truthy (VArr xs) = True"
| "truthy (VObj d) = True"

text \<open>
  \<^verbatim>\<open>{ ...base, ...src }\<close>: the properties of \<open>src\<close> are assigned, in their order,
  to a copy of \<open>base\<close>.
\<close>

definition spread :: "doc \<Rightarrow> doc \<Rightarrow> doc" where
  "spread base src = fold (\<lambda>(k, v). AList.update k v) src base"

text \<open>
  \<^verbatim>\<open>new ObjectId(s)\<close> on a string, as in version 6 of the library: the string has
  to be 24 hexadecimal digits (twelve bytes), in either case; anything else throws,
  which is \<open>None\<close>. The properties below only ask whether the construction throws.
\<close>

definition hex_value :: "char \<Rightarrow> nat option" where
  "hex_value c =
     (let n = (of_char c :: nat) in
      if 48 \<le> n \<and> n \<le> 57 then Some (n - 48)
      else if 97 \<le> n \<and> n \<le> 102 then Some (n - 87)
      else if 65 \<le> n \<and> n \<le> 70 then Some (n - 55)
      else None)"

definition ObjectId :: "string \<Rightarrow> oid option" where
  "ObjectId s = (if length s = 24 then those (map hex_value s) else None)"

section \<open>Store calls and request handlers\<close>

text \<open>
  An awaited store call either throws or returns its result object. The handlers read
  \<^verbatim>\<open>insertedId\<close>, \<^verbatim>\<open>modifiedCount\<close> and \<^verbatim>\<open>deletedCount\<close> of these results.
\<close>

datatype 'a outcome = Threw | Returned 'a

record insert_result =
  insertedId :: "val option"

record update_result =
  matchedCount :: nat
  modifiedCount :: nat

record delete_result =
  deletedCount :: nat

text \<open>
  The body of a request is a JSON object. A handler is the tree of what it does: it
  awaits a store call and goes on with the outcome, emits an event to the realtime channel, or sends the response and ends.
  The driver's \<^verbatim>\<open>insertOne\<close> writes into the object it is given (see
  \<open>maybeAddId\<close> below), so what follows \<open>InsertOne\<close> also gets that object as the
  call left it. \<open>UpdateOne i u\<close> is \<^verbatim>\<open>updateOne({ _id: i }, { $set: u })\<close>; \<open>FindOne i\<close> and
  \<open>DeleteOne i\<close> take the filter \<^verbatim>\<open>{ _id: i }\<close>.
\<close>

datatype handler =
    InsertOne doc "doc \<Rightarrow> insert_result outcome \<Rightarrow> handler"
  | UpdateOne oid doc "update_result outcome \<Rightarrow> handler"
  | FindOne oid "doc option outcome \<Rightarrow> handler"
  | DeleteOne oid "delete_result outcome \<Rightarrow> handler"
  | Emit string val handler
  | Respond nat val

definition error_body :: "string \<Rightarrow> val" where
  "error_body msg = VObj [(''error'', VStr msg)]"

definition message_body :: "string \<Rightarrow> val" where
  "message_body msg = VObj [(''message'', VStr msg)]"

text \<open>The value of a \<^verbatim>\<open>findOne\<close> result: the document, or \<^verbatim>\<open>null\<close>.\<close>

definition found_value :: "doc option \<Rightarrow> val" where
  "found_value r = (case r of None \<Rightarrow> VNull | Some d \<Rightarrow> VObj d)"

text \<open>
  \<^verbatim>\<open>app.post("/tasks", ...)\<close>; \<open>body\<close> is \<^verbatim>\<open>req.body\<close>, and \<open>task\<close> is the
  same object after \<^verbatim>\<open>insertOne\<close>.
\<close>

definition post_tasks :: "doc \<Rightarrow> handler" where
  "post_tasks body =
     InsertOne body (\<lambda>task r. case r of
         Threw \<Rightarrow> Respond 500 (error_body ''Internal server error'')
       | Returned result \<Rightarrow>
           (case insertedId result of
              None \<Rightarrow> Respond 500 (error_body ''Task creation failed'')
            | Some i \<Rightarrow>
                if truthy i then
                  (let insertedTask = spread [(''_id'', i)] task in
                   Emit ''taskAdded'' (VObj insertedTask) (Respond 201 (VObj insertedTask)))
                else Respond 500 (error_body ''Task creation failed'')))"

text \<open>
  \<^verbatim>\<open>app.put("/tasks/:id", ...)\<close>; \<open>id_param\<close> is \<^verbatim>\<open>req.params.id\<close>. Each
  \<^verbatim>\<open>new ObjectId(id)\<close> may throw into the handler's \<^verbatim>\<open>catch\<close>.
\<close>

definition put_tasks_id :: "string \<Rightarrow> doc \<Rightarrow> handler" where
  "put_tasks_id id_param body =
     (let updatedTask = AList.delete ''_id'' body in
      case ObjectId id_param of
        None \<Rightarrow> Respond 500 (error_body ''Task update failed'')
      | Some i \<Rightarrow>
          UpdateOne i updatedTask (\<lambda>r. case r of
              Threw \<Rightarrow> Respond 500 (error_body ''Task update failed'')
            | Returned result \<Rightarrow>
                if modifiedCount result = 0 then Respond 404 (error_body ''Task not found'')
                else
                  (case ObjectId id_param of
                     None \<Rightarrow> Respond 500 (error_body ''Task update failed'')
                   | Some j \<Rightarrow>
                       FindOne j (\<lambda>f. case f of
                           Threw \<Rightarrow> Respond 500 (error_body ''Task update failed'')
                         | Returned fullUpdatedTask \<Rightarrow>
                             Emit ''taskUpdated'' (found_value fullUpdatedTask)
                               (Respond 200 (found_value fullUpdatedTask))))))"

text \<open>\<^verbatim>\<open>app.delete("/tasks/:id", ...)\<close>.\<close>

definition delete_tasks_id :: "string \<Rightarrow> handler" where
  "delete_tasks_id id_param =
     (case ObjectId id_param of
        None \<Rightarrow> Respond 500 (error_body ''Task deletion failed'')
      | Some i \<Rightarrow>
          DeleteOne i (\<lambda>r. case r of
              Threw \<Rightarrow> Respond 500 (error_body ''Task deletion failed'')
            | Returned result \<Rightarrow>
                if deletedCount result = 0 then Respond 404 (error_body ''Task not found'')
                else Emit ''taskDeleted'' (VStr id_param)
                       (Respond 200 (message_body ''Task deleted successfully''))))"

section \<open>The store\<close>

text \<open>
  The \<^verbatim>\<open>tasks\<close> collection is a list of documents. The store keeps the
  \<^verbatim>\<open>_id\<close> of its documents unique and never changes the \<^verbatim>\<open>_id\<close> of a stored
  document. Field names are taken as top-level names: a name with a dot or a leading
  dollar sign, which the store reads as a path or an operator, is outside this model
  (\<open>plain_fields\<close>). Every call takes a flag saying that it fails (an unreachable
  store, a rejected document); a failing call throws and changes nothing.
\<close>

type_synonym collection = "doc list"

definition has_id :: "val \<Rightarrow> doc \<Rightarrow> bool" where
  "has_id i d = (map_of d ''_id'' = Some i)"

definition unique_ids :: "collection \<Rightarrow> bool" where
  "unique_ids c = distinct (map (\<lambda>d. map_of d ''_id'') c)"

definition plain_fields :: "doc \<Rightarrow> bool" where
  "plain_fields d = list_all (\<lambda>k. CHR ''.'' \<notin> set k \<and> take 1 k \<noteq> ''$'') (map fst d)"

text \<open>
  The driver's \<^verbatim>\<open>insertOne\<close> writes a generated identifier into the object it is
  given when that object has no \<^verbatim>\<open>_id\<close> (or a \<^verbatim>\<open>null\<close> one), before it sends
  the object; \<open>pk\<close> is the identifier it generates. \<open>doc_id pk d\<close> is the
  \<^verbatim>\<open>_id\<close> the object has afterwards.
\<close>

definition maybeAddId :: "oid \<Rightarrow> doc \<Rightarrow> doc" where
  "maybeAddId pk d =
     (case map_of d ''_id'' of
        None \<Rightarrow> AList.update ''_id'' (VOid pk) d
      | Some VNull \<Rightarrow> AList.update ''_id'' (VOid pk) d
      | Some _ \<Rightarrow> d)"

definition doc_id :: "oid \<Rightarrow> doc \<Rightarrow> val" where
  "doc_id pk d =
     (case map_of d ''_id'' of
        None \<Rightarrow> VOid pk
      | Some VNull \<Rightarrow> VOid pk
      | Some i \<Rightarrow> i)"

definition insertOne ::
  "oid \<Rightarrow> bool \<Rightarrow> doc \<Rightarrow> collection \<Rightarrow> doc \<times> insert_result outcome \<times> collection" where
  "insertOne pk fails d c =
     (let d' = maybeAddId pk d; i = doc_id pk d in
      if fails \<or> list_ex (has_id i) c then (d', Threw, c)
      else (d', Returned \<lparr>insertedId = Some i\<rparr>, c @ [d']))"

fun replace_first :: "('a \<Rightarrow> bool) \<Rightarrow> 'a \<Rightarrow> 'a list \<Rightarrow> 'a list" where
  "replace_first P y [] = []"
| "replace_first P y (x # xs) = (if P x then y # xs else x # replace_first P y xs)"

fun remove_first :: "('a \<Rightarrow> bool) \<Rightarrow> 'a list \<Rightarrow> 'a list" where
  "remove_first P [] = []"
| "remove_first P (x # xs) = (if P x then xs else x # remove_first P xs)"

text \<open>
  \<^verbatim>\<open>$set\<close> assigns the given fields in the matched document and keeps its other
  fields. A document that is left as it was is matched but not modified.
\<close>

definition updateOne ::
  "bool \<Rightarrow> oid \<Rightarrow> doc \<Rightarrow> collection \<Rightarrow> update_result outcome \<times> collection" where
  "updateOne fails i u c =
     (if fails then (Threw, c)
      else
        (case find (has_id (VOid i)) c of
           None \<Rightarrow> (Returned \<lparr>matchedCount = 0, modifiedCount = 0\<rparr>, c)
         | Some d \<Rightarrow>
             (let d' = spread d u in
              if map_of d' ''_id'' \<noteq> map_of d ''_id'' then (Threw, c)
              else if d' = d then (Returned \<lparr>matchedCount = 1, modifiedCount = 0\<rparr>, c)
              else (Returned \<lparr>matchedCount = 1, modifiedCount = 1\<rparr>,
                    replace_first (has_id (VOid i)) d' c))))"

text \<open>
  An update of the document with identifier \<open>i\<close> by the fields of \<open>body\<close> other than
  \<^verbatim>\<open>_id\<close> changes nothing: no document has the identifier, or the document that has
  it holds these values already.
\<close>

definition put_unchanged :: "oid \<Rightarrow> doc \<Rightarrow> collection \<Rightarrow> bool" where
  "put_unchanged i body c =
     (case find (has_id (VOid i)) c of
        None \<Rightarrow> True
      | Some d \<Rightarrow> spread d (AList.delete ''_id'' body) = d)"

definition findOne :: "bool \<Rightarrow> oid \<Rightarrow> collection \<Rightarrow> doc option outcome" where
  "findOne fails i c = (if fails then Threw else Returned (find (has_id (VOid i)) c))"

definition deleteOne ::
  "bool \<Rightarrow> oid \<Rightarrow> collection \<Rightarrow> delete_result outcome \<times> collection" where
  "deleteOne fails i c =
     (if fails then (Threw, c)
      else if list_ex (has_id (VOid i)) c
        then (Returned \<lparr>deletedCount = 1\<rparr>, remove_first (has_id (VOid i)) c)
        else (Returned \<lparr>deletedCount = 0\<rparr>, c))"

section \<open>One request at a time\<close>

text \<open>
  The trace of a request lists, in the order of execution, the store calls the handler
  awaited with their outcomes, the events it emitted and its response.
\<close>

datatype action =
    AwaitedInsert doc "insert_result outcome"
  | AwaitedUpdate oid doc "update_result outcome"
  | AwaitedFind oid "doc option outcome"
  | AwaitedDelete oid "delete_result outcome"
  | Emitted string val
  | Responded nat val

text \<open>
  What the surroundings decide during one request: the identifier the driver generates
  for an insert, and which store calls fail.
\<close>

record environment =
  generated_id :: oid
  insert_fails :: bool
  update_fails :: bool
  find_fails :: bool
  delete_fails :: bool

text \<open>
  \<open>exec\<close> runs a handler to its end on the collection, with nothing else in
  between; it gives the trace and the collection afterwards.
\<close>

primrec exec :: "handler \<Rightarrow> environment \<Rightarrow> collection \<Rightarrow> action list \<times> collection" where
  "exec (InsertOne d k) =
     (\<lambda>env c. case insertOne (generated_id env) (insert_fails env) d c of
        (d', r, c') \<Rightarrow>
          (case exec (k d' r) env c' of (tr, c'') \<Rightarrow> (AwaitedInsert d' r # tr, c'')))"
| "exec (UpdateOne i u k) =
     (\<lambda>env c. case updateOne (update_fails env) i u c of
        (r, c') \<Rightarrow>
          (case exec (k r) env c' of (tr, c'') \<Rightarrow> (AwaitedUpdate i u r # tr, c'')))"
| "exec (FindOne i k) =
     (\<lambda>env c. let r = findOne (find_fails env) i c in
        (case exec (k r) env c of (tr, c'') \<Rightarrow> (AwaitedFind i r # tr, c'')))"
| "exec (DeleteOne i k) =
     (\<lambda>env c. case deleteOne (delete_fails env) i c of
        (r, c') \<Rightarrow>
          (case exec (k r) env c' of (tr, c'') \<Rightarrow> (AwaitedDelete i r # tr, c'')))"
| "exec (Emit name payload h) =
     (\<lambda>env c. case exec h env c of (tr, c') \<Rightarrow> (Emitted name payload # tr, c'))"
| "exec (Respond code b) = (\<lambda>env c. ([Responded code b], c))"

text \<open>The events of a trace, in order, and its responses.\<close>

fun events :: "action list \<Rightarrow> (string \<times> val) list" where
  "events [] = []"
| "events (Emitted name payload # tr) = (name, payload) # events tr"
| "events (a # tr) = events tr"

fun responses :: "action list \<Rightarrow> (nat \<times> val) list" where
  "responses [] = []"
| "responses (Responded code b # tr) = (code, b) # responses tr"
| "responses (a # tr) = responses tr"

subsection \<open>A handler under arbitrary outcomes of its store calls\<close>

text \<open>
  Each handler awaits every kind of store call at most once, so whatever the store and
  the other requests do, the outcomes one handler sees are four values, with the
  identifier the driver generates for an insert. \<open>trace\<close> is the trace of a handler
  for given outcomes.
\<close>

record replies =
  generated :: oid
  insert_reply :: "insert_result outcome"
  update_reply :: "update_result outcome"
  find_reply :: "doc option outcome"
  delete_reply :: "delete_result outcome"

primrec trace :: "handler \<Rightarrow> replies \<Rightarrow> action list" where
  "trace (InsertOne d k) =
     (\<lambda>rs. AwaitedInsert (maybeAddId (generated rs) d) (insert_reply rs)
             # trace (k (maybeAddId (generated rs) d) (insert_reply rs)) rs)"
| "trace (UpdateOne i u k) =
     (\<lambda>rs. AwaitedUpdate i u (update_reply rs) # trace (k (update_reply rs)) rs)"
| "trace (FindOne i k) =
     (\<lambda>rs. AwaitedFind i (find_reply rs) # trace (k (find_reply rs)) rs)"
| "trace (DeleteOne i k) =
     (\<lambda>rs. AwaitedDelete i (delete_reply rs) # trace (k (delete_reply rs)) rs)"
| "trace (Emit name payload h) = (\<lambda>rs. Emitted name payload # trace h rs)"
| "trace (Respond code b) = (\<lambda>rs. [Responded code b])"

text \<open>
  A store call reports a change of state: an insert that returned an
  \<^verbatim>\<open>insertedId\<close>, an update that returned a \<^verbatim>\<open>modifiedCount\<close> other than 0, a
  delete that returned a \<^verbatim>\<open>deletedCount\<close> other than 0.
\<close>

fun reports_change :: "action \<Rightarrow> bool" where
  "reports_change (AwaitedInsert d (Returned r)) = (insertedId r \<noteq> None)"
| "reports_change (AwaitedUpdate i u (Returned r)) = (modifiedCount r \<noteq> 0)"
| "reports_change (AwaitedDelete i (Returned r)) = (deletedCount r \<noteq> 0)"
| "reports_change a = False"

text \<open>Requests served one after the other, each to its end.\<close>

datatype request = POST_tasks doc | PUT_tasks_id string doc | DELETE_tasks_id string

fun route :: "request \<Rightarrow> handler" where
  "route (POST_tasks body) = post_tasks body"
| "route (PUT_tasks_id id_param body) = put_tasks_id id_param body"
| "route (DELETE_tasks_id id_param) = delete_tasks_id id_param"

fun is_update :: "request \<Rightarrow> bool" where
  "is_update (PUT_tasks_id id_param body) = True"
| "is_update req = False"

definition serve :: "request \<Rightarrow> environment \<Rightarrow> collection \<Rightarrow> collection" where
  "serve req env c = snd (exec (route req) env c)"

definition serve_all :: "(request \<times> environment) list \<Rightarrow> collection \<Rightarrow> collection" where
  "serve_all reqs c = fold (\<lambda>(req, env). serve req env) reqs c"

text \<open>The identifiers of the stored documents, in the order of the collection.\<close>

definition identifiers :: "collection \<Rightarrow> val option list" where
  "identifiers c = map (\<lambda>d. map_of d ''_id'') c"

section \<open>The realtime channel\<close>

text \<open>
  The connections, as the channel library keeps them: \<open>clients\<close> are the open
  transport connections, which \<^verbatim>\<open>io.engine.clientsCount\<close> counts; \<open>sockets\<close> are
  the connections that have joined the main namespace, each with the
  \<^verbatim>\<open>userEmail\<close> the middleware stored; \<open>received\<close> lists the packets sent to
  clients, in the order of sending. A connection is first opened; then the client asks
  to join with its \<^verbatim>\<open>auth\<close> payload and the middleware decides; a refused client
  is sent a \<^verbatim>\<open>connect_error\<close> packet with the error's message and its transport
  connection stays open until it is closed. A request to join from a connection that
  has joined already is an invalid state, on which the library closes the connection.

  The server is set up with \<^verbatim>\<open>connectionStateRecovery\<close>: a request to join that
  carries the private id (\<^verbatim>\<open>pid\<close>) of a session closed shortly before is restored
  by the library without the middleware. Restored sessions are outside this model; what
  is said of a connection below is said for requests to join that carry no \<^verbatim>\<open>pid\<close>.
\<close>

type_synonym conn = nat

record registry =
  clients :: "conn list"
  sockets :: "(conn \<times> val) list"
  received :: "(conn \<times> string \<times> val) list"

text \<open>
  \<^verbatim>\<open>io.use((socket, next) => ...)\<close>; \<open>auth\<close> is \<^verbatim>\<open>socket.handshake.auth\<close>. The
  result is the error given to \<^verbatim>\<open>next\<close>, or the \<^verbatim>\<open>userEmail\<close> stored on the
  socket before \<^verbatim>\<open>next()\<close>.
\<close>

definition auth_middleware :: "doc \<Rightarrow> string + val" where
  "auth_middleware auth =
     (case map_of auth ''email'' of
        None \<Rightarrow> Inl ''Unauthorized''
      | Some email \<Rightarrow> if truthy email then Inr email else Inl ''Unauthorized'')"

text \<open>\<^verbatim>\<open>io.emit(name, payload)\<close>: one packet to every socket of the main namespace.\<close>

definition io_emit :: "string \<Rightarrow> val \<Rightarrow> registry \<Rightarrow> registry" where
  "io_emit name payload r =
     r\<lparr>received := received r @ map (\<lambda>(c, email). (c, name, payload)) (sockets r)\<rparr>"

datatype channel_event = Open conn | Connect conn doc | Close conn

definition close_connection :: "conn \<Rightarrow> registry \<Rightarrow> registry" where
  "close_connection c r =
     r\<lparr>clients := removeAll c (clients r), sockets := filter (\<lambda>(c', email). c' \<noteq> c) (sockets r)\<rparr>"

fun channel_step :: "channel_event \<Rightarrow> registry \<Rightarrow> registry" where
  "channel_step (Open c) r = (if c \<in> set (clients r) then r else r\<lparr>clients := clients r @ [c]\<rparr>)"
| "channel_step (Connect c auth) r =
     (if c \<notin> set (clients r) then r
      else if c \<in> fst ` set (sockets r) then close_connection c r
      else
        (case auth_middleware auth of
           Inl msg \<Rightarrow>
             r\<lparr>received := received r @ [(c, ''connect_error'', VObj [(''message'', VStr msg)])]\<rparr>
         | Inr email \<Rightarrow> r\<lparr>sockets := sockets r @ [(c, email)]\<rparr>))"
| "channel_step (Close c) r = close_connection c r"

text \<open>
  \<^verbatim>\<open>app.get("/", ...)\<close>, the health check. \<open>topology\<close> is \<^verbatim>\<open>client.topology\<close>:
  \<open>None\<close> when it is undefined, otherwise what its \<^verbatim>\<open>isConnected()\<close> returns. The
  handler has no \<^verbatim>\<open>try\<close>: on an undefined topology the call throws a
  \<^verbatim>\<open>TypeError\<close> out of the handler, which the framework answers with 500.
\<close>

datatype uncaught = TypeError

definition get_root :: "bool option \<Rightarrow> registry \<Rightarrow> uncaught + handler" where
  "get_root topology r =
     (case topology of
        None \<Rightarrow> Inl TypeError
      | Some isConnected \<Rightarrow>
          (let mongoStatus = (if isConnected then ''connected'' else ''disconnected'') in
           Inr (Respond 200
             (VObj [(''status'', VStr ''ok''), (''mongo'', VStr mongoStatus),
                    (''websockets'', VNum (int (length (clients r))))]))))"

section \<open>Requests in flight together\<close>

text \<open>
  The handlers are \<^verbatim>\<open>async\<close> functions on one event loop: a handler runs until it
  awaits a store call, other handlers run while it waits, and it goes on when the
  reply arrives. A request is known by a number. Its handler is \<open>Waiting\<close> from the
  call until the store executes it, \<open>Arriving\<close> while the reply is on its way, and
  \<open>Finished\<close> after the response. \<open>log\<close> records who did what, in order.
\<close>

datatype suspended = Waiting handler | Arriving action handler | Finished

record server =
  tasks :: collection
  channel :: registry
  running :: "nat \<Rightarrow> suspended option"
  log :: "(nat \<times> action) list"

text \<open>A handler runs on, without interruption, to its next store call or to its end.\<close>

primrec advance :: "nat \<Rightarrow> handler \<Rightarrow> server \<Rightarrow> server" where
  "advance n (InsertOne d k) = (\<lambda>s. s\<lparr>running := (running s)(n \<mapsto> Waiting (InsertOne d k))\<rparr>)"
| "advance n (UpdateOne i u k) = (\<lambda>s. s\<lparr>running := (running s)(n \<mapsto> Waiting (UpdateOne i u k))\<rparr>)"
| "advance n (FindOne i k) = (\<lambda>s. s\<lparr>running := (running s)(n \<mapsto> Waiting (FindOne i k))\<rparr>)"
| "advance n (DeleteOne i k) = (\<lambda>s. s\<lparr>running := (running s)(n \<mapsto> Waiting (DeleteOne i k))\<rparr>)"
| "advance n (Emit name payload h) =
     (\<lambda>s. advance n h
        (s\<lparr>channel := io_emit name payload (channel s),
           log := log s @ [(n, Emitted name payload)]\<rparr>))"
| "advance n (Respond code b) =
     (\<lambda>s. s\<lparr>running := (running s)(n \<mapsto> Finished), log := log s @ [(n, Responded code b)]\<rparr>)"

text \<open>
  The store executes the call a handler waits for: the outcome, what the handler does
  with it, and the collection afterwards.
\<close>

fun store_executes ::
  "environment \<Rightarrow> handler \<Rightarrow> collection \<Rightarrow> (action \<times> handler \<times> collection) option" where
  "store_executes env (InsertOne d k) c =
     (case insertOne (generated_id env) (insert_fails env) d c of
        (d', r, c') \<Rightarrow> Some (AwaitedInsert d' r, k d' r, c'))"
| "store_executes env (UpdateOne i u k) c =
     (case updateOne (update_fails env) i u c of (r, c') \<Rightarrow> Some (AwaitedUpdate i u r, k r, c'))"
| "store_executes env (FindOne i k) c =
     (let r = findOne (find_fails env) i c in Some (AwaitedFind i r, k r, c))"
| "store_executes env (DeleteOne i k) c =
     (case deleteOne (delete_fails env) i c of (r, c') \<Rightarrow> Some (AwaitedDelete i r, k r, c'))"
| "store_executes env (Emit name payload h) c = None"
| "store_executes env (Respond code b) c = None"

datatype event =
    Arrive nat request
  | Execute nat environment
  | Resume nat
  | Channel channel_event

fun step :: "event \<Rightarrow> server \<Rightarrow> server" where
  "step (Arrive n req) s =
     (case running s n of None \<Rightarrow> advance n (route req) s | Some w \<Rightarrow> s)"
| "step (Execute n env) s =
     (case running s n of
        Some (Waiting h) \<Rightarrow>
          (case store_executes env h (tasks s) of
             Some (a, h', c') \<Rightarrow> s\<lparr>tasks := c', running := (running s)(n \<mapsto> Arriving a h')\<rparr>
           | None \<Rightarrow> s)
      | Some (Arriving a h) \<Rightarrow> s
      | Some Finished \<Rightarrow> s
      | None \<Rightarrow> s)"
| "step (Resume n) s =
     (case running s n of
        Some (Arriving a h) \<Rightarrow> advance n h (s\<lparr>log := log s @ [(n, a)]\<rparr>)
      | Some (Waiting h) \<Rightarrow> s
      | Some Finished \<Rightarrow> s
      | None \<Rightarrow> s)"
| "step (Channel e) s = s\<lparr>channel := channel_step e (channel s)\<rparr>"

definition run :: "event list \<Rightarrow> server \<Rightarrow> server" where
  "run evs s = fold step evs s"

definition initial :: server where
  "initial =
     \<lparr>tasks = [], channel = \<lparr>clients = [], sockets = [], received = []\<rparr>,
      running = (\<lambda>n. None), log = []\<rparr>"

text \<open>The packets a connection has been sent, in order.\<close>

definition inbox :: "conn \<Rightarrow> server \<Rightarrow> (string \<times> val) list" where
  "inbox c s = map snd (filter (\<lambda>(c', packet). c' = c) (received (channel s)))"

text \<open>
  A connection that is no socket of the main namespace and has been sent nothing but
  refusals.
\<close>

definition refused :: "conn \<Rightarrow> server \<Rightarrow> bool" where
  "refused c s \<longleftrightarrow>
     c \<notin> fst ` set (sockets (channel s)) \<and>
     (\<forall>p\<in>set (inbox c s). p = (''connect_error'', VObj [(''message'', VStr ''Unauthorized'')]))"

section \<open>Values of the scenarios\<close>

definition id1 :: string where
  "id1 = ''507f1f77bcf86cd799439011''"

definition oid1 :: oid where
  "oid1 = [5, 0, 7, 15, 1, 15, 7, 7, 11, 12, 15, 8, 6, 12, 13, 7, 9, 9, 4, 3, 9, 0, 1, 1]"

definition no_faults :: environment where
  "no_faults = \<lparr>generated_id = oid1, insert_fails = False, update_fails = False,
                find_fails = False, delete_fails = False\<rparr>"

definition stored1 :: doc where
  "stored1 = [(''title'', VStr ''T1''), (''userEmail'', VStr ''a@x.com''), (''_id'', VOid oid1)]"

definition all_return :: replies where
  "all_return =
     \<lparr>generated = oid1,
      insert_reply = Returned \<lparr>insertedId = Some (VOid oid1)\<rparr>,
      update_reply = Returned \<lparr>matchedCount = 1, modifiedCount = 1\<rparr>,
      find_reply = Returned (Some stored1),
      delete_reply = Returned \<lparr>deletedCount = 1\<rparr>\<rparr>"

definition stored2 :: doc where
  "stored2 = [(''title'', VStr ''T2''), (''userEmail'', VStr ''a@x.com''), (''_id'', VOid oid1)]"

definition added1 :: val where
  "added1 = VObj [(''_id'', VOid oid1), (''title'', VStr ''T1''), (''userEmail'', VStr ''a@x.com'')]"

text \<open>
  Connection 1 joins with an email, then a task is created: the scenario of the
  specification up to its first response.
\<close>

definition created :: "event list" where
  "created =
     [Channel (Open 1), Channel (Connect 1 [(''email'', VStr ''a@x.com'')]),
      Arrive 0 (POST_tasks [(''title'', VStr ''T1''), (''userEmail'', VStr ''a@x.com'')]),
      Execute 0 no_faults, Resume 0]"

text \<open>Connection 7 asks to join without an email, connection 8 with one.\<close>

definition knock :: "event list" where
  "knock =
     [Channel (Open 7), Channel (Connect 7 []),
      Channel (Open 8), Channel (Connect 8 [(''email'', VStr ''a@x.com'')]),
      Arrive 0 (POST_tasks [(''title'', VStr ''T1''), (''userEmail'', VStr ''a@x.com'')]),
      Execute 0 no_faults, Resume 0]"

section \<open>Identifiers\<close>

lemma ObjectId_id1: "ObjectId id1 = Some oid1"
  by (simp add: ObjectId_def id1_def oid1_def hex_value_def)

lemma ObjectId_xyz: "ObjectId ''xyz'' = None"
  by (simp add: ObjectId_def)

lemmas scenario_defs = initial_def auth_middleware_def post_tasks_def put_tasks_id_def
  delete_tasks_id_def insertOne_def updateOne_def findOne_def deleteOne_def maybeAddId_def
  doc_id_def no_faults_def spread_def io_emit_def Let_def has_id_def ObjectId_id1
  found_value_def inbox_def stored1_def stored2_def added1_def created_def knock_def

lemma ObjectId_length: "ObjectId s = Some i \<Longrightarrow> length s = 24"
  by (simp add: ObjectId_def split: if_splits)

section \<open>Courses of events\<close>

lemma run_Nil [simp]: "run [] s = s"
  by (simp add: run_def)

lemma run_Cons [simp]: "run (e # evs) s = run evs (step e s)"
  by (simp add: run_def)

lemma run_append [simp]: "run (evs @ evs') s = run evs' (run evs s)"
  by (simp add: run_def)

section \<open>Malformed identifiers\<close>

text \<open>
  C10. When \<^verbatim>\<open>new ObjectId(id)\<close> throws on the path parameter, the handlers of
  \<^verbatim>\<open>PUT /tasks/:id\<close> and \<^verbatim>\<open>DELETE /tasks/:id\<close> do nothing but answer 500, with
  \<^verbatim>\<open>Task update failed\<close> and \<^verbatim>\<open>Task deletion failed\<close>: no store call is made,
  no event is emitted, the collection stays as it is, and the answer is not 404.
\<close>

theorem malformed_id_answers_500:
  assumes "ObjectId id_param = None"
  shows "put_tasks_id id_param body = Respond 500 (error_body ''Task update failed'')
       \<and> delete_tasks_id id_param = Respond 500 (error_body ''Task deletion failed'')
       \<and> exec (put_tasks_id id_param body) env c =
             ([Responded 500 (error_body ''Task update failed'')], c)
       \<and> exec (delete_tasks_id id_param) env c =
             ([Responded 500 (error_body ''Task deletion failed'')], c)"
  using assms by (simp add: put_tasks_id_def delete_tasks_id_def)

theorem malformed_id_answers_500_witness:
  "ObjectId ''xyz'' = None
   \<and> put_tasks_id ''xyz'' [(''title'', VStr ''T2'')] = Respond 500 (error_body ''Task update failed'')
   \<and> delete_tasks_id ''xyz'' = Respond 500 (error_body ''Task deletion failed'')
   \<and> exec (put_tasks_id ''xyz'' [(''title'', VStr ''T2'')]) no_faults
        [[(''_id'', VOid oid1), (''title'', VStr ''T1'')]] =
       ([Responded 500 (error_body ''Task update failed'')],
        [[(''_id'', VOid oid1), (''title'', VStr ''T1'')]])
   \<and> exec (delete_tasks_id ''xyz'') no_faults [[(''_id'', VOid oid1), (''title'', VStr ''T1'')]] =
       ([Responded 500 (error_body ''Task deletion failed'')],
        [[(''_id'', VOid oid1), (''title'', VStr ''T1'')]])"
  using malformed_id_answers_500 [of "''xyz''" "[(''title'', VStr ''T2'')]" no_faults
      "[[(''_id'', VOid oid1), (''title'', VStr ''T1'')]]"]
  by (simp add: ObjectId_def)

section \<open>Persist, then notify\<close>

lemma emitted_split:
  "(a # tr = pre @ Emitted name payload # post) =
     ((pre = [] \<and> a = Emitted name payload \<and> post = tr) \<or>
      (\<exists>pre'. pre = a # pre' \<and> tr = pre' @ Emitted name payload # post))"
  by (cases pre) auto

lemma post_guard:
  "trace (post_tasks body) rs = pre @ Emitted name payload # post \<Longrightarrow>
     \<exists>a\<in>set pre. reports_change a"
  by (auto simp: post_tasks_def Let_def emitted_split split: outcome.splits option.splits if_splits)

lemma put_guard:
  "trace (put_tasks_id id_param body) rs = pre @ Emitted name payload # post \<Longrightarrow>
     \<exists>a\<in>set pre. reports_change a"
  by (auto simp: put_tasks_id_def Let_def emitted_split split: outcome.splits option.splits if_splits)

lemma delete_guard:
  "trace (delete_tasks_id id_param) rs = pre @ Emitted name payload # post \<Longrightarrow>
     \<exists>a\<in>set pre. reports_change a"
  by (auto simp: delete_tasks_id_def emitted_split split: outcome.splits option.splits if_splits)

lemma post_once: "length (events (trace (post_tasks body) rs)) \<le> 1"
  by (simp add: post_tasks_def Let_def split: outcome.splits option.splits)

lemma put_once: "length (events (trace (put_tasks_id id_param body) rs)) \<le> 1"
  by (simp add: put_tasks_id_def Let_def split: outcome.splits option.splits)

lemma delete_once: "length (events (trace (delete_tasks_id id_param) rs)) \<le> 1"
  by (simp add: delete_tasks_id_def split: outcome.splits option.splits)

text \<open>
  C1, as the code has it. Whatever the outcomes of the store calls are, a handler of
  \<^verbatim>\<open>POST /tasks\<close>, \<^verbatim>\<open>PUT /tasks/:id\<close> or \<^verbatim>\<open>DELETE /tasks/:id\<close> emits at most
  one event, and it emits it only after a store call of its own has returned and
  reported a change; so nothing is emitted when that call throws or reports no change.
  In the other direction: an insert that returned a truthy \<^verbatim>\<open>insertedId\<close> is
  followed by \<^verbatim>\<open>taskAdded\<close>, a delete that returned a \<^verbatim>\<open>deletedCount\<close> other
  than 0 by \<^verbatim>\<open>taskDeleted\<close>, and an update that returned a \<^verbatim>\<open>modifiedCount\<close>
  other than 0 by \<^verbatim>\<open>taskUpdated\<close> when the re-read \<^verbatim>\<open>findOne\<close> returns too; when
  the re-read throws, the update is reported by no event.
\<close>

theorem event_only_after_reported_change:
  "(h = post_tasks body \<or> h = put_tasks_id id_param body \<or> h = delete_tasks_id id_param \<longrightarrow>
      (\<forall>pre name payload post.
          trace h rs = pre @ Emitted name payload # post \<longrightarrow> (\<exists>a\<in>set pre. reports_change a))
      \<and> length (events (trace h rs)) \<le> 1)
   \<and> (insert_reply rs = Returned ri \<and> insertedId ri = Some i \<and> truthy i \<longrightarrow>
        events (trace (post_tasks body) rs) =
          [(''taskAdded'', VObj (spread [(''_id'', i)] (maybeAddId (generated rs) body)))])
   \<and> (ObjectId id_param \<noteq> None \<and> update_reply rs = Returned ru \<and> modifiedCount ru \<noteq> 0 \<longrightarrow>
        events (trace (put_tasks_id id_param body) rs) =
          (case find_reply rs of Threw \<Rightarrow> [] | Returned f \<Rightarrow> [(''taskUpdated'', found_value f)]))
   \<and> (ObjectId id_param \<noteq> None \<and> delete_reply rs = Returned rd \<and> deletedCount rd \<noteq> 0 \<longrightarrow>
        events (trace (delete_tasks_id id_param) rs) = [(''taskDeleted'', VStr id_param)])"
proof -
  have guard: "\<exists>a\<in>set pre. reports_change a"
    if "h = post_tasks body \<or> h = put_tasks_id id_param body \<or> h = delete_tasks_id id_param"
      and "trace h rs = pre @ Emitted name payload # post"
    for pre name payload post
    using that post_guard put_guard delete_guard by blast
  have once: "length (events (trace h rs)) \<le> 1"
    if "h = post_tasks body \<or> h = put_tasks_id id_param body \<or> h = delete_tasks_id id_param"
    using that post_once put_once delete_once by blast
  have added: "events (trace (post_tasks body) rs) =
      [(''taskAdded'', VObj (spread [(''_id'', i)] (maybeAddId (generated rs) body)))]"
    if "insert_reply rs = Returned ri" and "insertedId ri = Some i" and "truthy i"
    using that by (simp add: post_tasks_def Let_def)
  have updated: "events (trace (put_tasks_id id_param body) rs) =
      (case find_reply rs of Threw \<Rightarrow> [] | Returned f \<Rightarrow> [(''taskUpdated'', found_value f)])"
    if "ObjectId id_param \<noteq> None" and "update_reply rs = Returned ru" and "modifiedCount ru \<noteq> 0"
    using that by (auto simp: put_tasks_id_def Let_def split: outcome.splits)
  have deleted: "events (trace (delete_tasks_id id_param) rs) = [(''taskDeleted'', VStr id_param)]"
    if "ObjectId id_param \<noteq> None" and "delete_reply rs = Returned rd" and "deletedCount rd \<noteq> 0"
    using that by (auto simp: delete_tasks_id_def)
  show ?thesis
    using guard once added updated deleted by blast
qed

theorem event_only_after_reported_change_witness:
  "trace (put_tasks_id id1 [(''title'', VStr ''T1'')]) all_return =
     [AwaitedUpdate oid1 [(''title'', VStr ''T1'')]
        (Returned \<lparr>matchedCount = 1, modifiedCount = 1\<rparr>),
      AwaitedFind oid1 (Returned (Some stored1))]
     @ Emitted ''taskUpdated'' (VObj stored1) # [Responded 200 (VObj stored1)]
   \<and> reports_change (AwaitedUpdate oid1 [(''title'', VStr ''T1'')]
        (Returned \<lparr>matchedCount = 1, modifiedCount = 1\<rparr>))
   \<and> length (events (trace (put_tasks_id id1 [(''title'', VStr ''T1'')]) all_return)) \<le> 1
   \<and> insert_reply all_return = Returned \<lparr>insertedId = Some (VOid oid1)\<rparr>
   \<and> truthy (VOid oid1)
   \<and> events (trace (post_tasks [(''title'', VStr ''T1'')]) all_return) =
       [(''taskAdded'', VObj [(''_id'', VOid oid1), (''title'', VStr ''T1'')])]
   \<and> ObjectId id1 = Some oid1
   \<and> update_reply all_return = Returned \<lparr>matchedCount = 1, modifiedCount = 1\<rparr>
   \<and> events (trace (put_tasks_id id1 [(''title'', VStr ''T1'')]) all_return) =
       [(''taskUpdated'', VObj stored1)]
   \<and> delete_reply all_return = Returned \<lparr>deletedCount = 1\<rparr>
   \<and> events (trace (delete_tasks_id id1) all_return) = [(''taskDeleted'', VStr id1)]"
  using event_only_after_reported_change [of "put_tasks_id id1 [(''title'', VStr ''T1'')]"
      "[(''title'', VStr ''T1'')]" id1 all_return "\<lparr>insertedId = Some (VOid oid1)\<rparr>" "VOid oid1"
      "\<lparr>matchedCount = 1, modifiedCount = 1\<rparr>" "\<lparr>deletedCount = 1\<rparr>"]
  by (simp add: put_tasks_id_def post_tasks_def delete_tasks_id_def ObjectId_id1 all_return_def
      found_value_def spread_def maybeAddId_def)

text \<open>
  The claim as stated fails on an update whose re-read throws: the update is applied
  and reports \<^verbatim>\<open>modifiedCount\<close> 1, the answer is 500 and no event is emitted.
\<close>

theorem committed_update_without_event:
  "fst (exec (put_tasks_id id1 [(''title'', VStr ''T2'')]) (no_faults\<lparr>find_fails := True\<rparr>)
          [[(''_id'', VOid oid1), (''title'', VStr ''T1'')]])
     = [AwaitedUpdate oid1 [(''title'', VStr ''T2'')]
          (Returned \<lparr>matchedCount = 1, modifiedCount = 1\<rparr>),
        AwaitedFind oid1 Threw,
        Responded 500 (error_body ''Task update failed'')]
   \<and> snd (exec (put_tasks_id id1 [(''title'', VStr ''T2'')]) (no_faults\<lparr>find_fails := True\<rparr>)
          [[(''_id'', VOid oid1), (''title'', VStr ''T1'')]])
     = [[(''_id'', VOid oid1), (''title'', VStr ''T2'')]]
   \<and> events (fst (exec (put_tasks_id id1 [(''title'', VStr ''T2'')])
          (no_faults\<lparr>find_fails := True\<rparr>)
          [[(''_id'', VOid oid1), (''title'', VStr ''T1'')]])) = []"
  by (simp add: put_tasks_id_def ObjectId_id1 updateOne_def findOne_def spread_def has_id_def
      no_faults_def)

section \<open>Documents\<close>

lemma map_of_fold_update_other:
  "k \<notin> fst ` set src \<Longrightarrow> map_of (fold (\<lambda>(k, v). AList.update k v) src base) k = map_of base k"
  by (induction src arbitrary: base) (auto simp: update_conv')

lemma map_of_fold_update:
  "distinct (map fst src) \<Longrightarrow>
   map_of (fold (\<lambda>(k, v). AList.update k v) src base) k =
     (case map_of src k of Some v \<Rightarrow> Some v | None \<Rightarrow> map_of base k)"
proof (induction src arbitrary: base)
  case Nil
  then show ?case by simp
next
  case (Cons p src)
  obtain k' v' where p: "p = (k', v')" by (cases p)
  show ?case
  proof (cases "k = k'")
    case True
    with Cons.prems p have "k \<notin> fst ` set src" by auto
    then show ?thesis
      using True p by (simp add: map_of_fold_update_other update_conv')
  next
    case False
    with Cons p show ?thesis by (simp add: update_conv' split: option.splits)
  qed
qed

lemma map_of_spread:
  "is_object src \<Longrightarrow>
   map_of (spread base src) k = (case map_of src k of Some v \<Rightarrow> Some v | None \<Rightarrow> map_of base k)"
  by (simp add: spread_def is_object_def map_of_fold_update)

lemma map_of_spread_other:
  "k \<notin> fst ` set src \<Longrightarrow> map_of (spread base src) k = map_of base k"
  by (simp add: spread_def map_of_fold_update_other)

lemma map_of_maybeAddId_other:
  "k \<noteq> ''_id'' \<Longrightarrow> map_of (maybeAddId pk d) k = map_of d k"
  by (simp add: maybeAddId_def update_conv' split: option.splits val.splits)

lemma map_of_maybeAddId_id:
  "map_of (maybeAddId pk d) ''_id'' = Some (doc_id pk d)"
  by (simp add: maybeAddId_def doc_id_def update_conv' split: option.splits val.splits)


lemma is_object_delete: "is_object d \<Longrightarrow> is_object (AList.delete k d)"
  by (simp add: is_object_def distinct_delete)

lemma spread_keeps_id:
  "map_of (spread d (AList.delete ''_id'' body)) ''_id'' = map_of d ''_id''"
  by (simp add: map_of_spread_other delete_notin_dom)

section \<open>The collection\<close>

lemma find_replace_first:
  "P y \<Longrightarrow> find P xs = Some x \<Longrightarrow> find P (replace_first P y xs) = Some y"
  by (induction xs) (auto split: if_splits)

lemma map_replace_first:
  "find P xs = Some x \<Longrightarrow> f y = f x \<Longrightarrow> map f (replace_first P y xs) = map f xs"
  by (induction xs) (auto split: if_splits)

lemma find_has_id: "find (has_id v) c = Some d \<Longrightarrow> has_id v d"
  by (induction c) (auto split: if_splits)

lemma set_remove_first: "set (remove_first P xs) \<subseteq> set xs"
  by (induction xs) auto

lemma distinct_map_remove_first: "distinct (map f xs) \<Longrightarrow> distinct (map f (remove_first P xs))"
  using set_remove_first[of P xs] by (induction xs) (auto dest: set_remove_first[THEN subsetD])

lemma remove_first_no_more:
  "distinct (map f xs) \<Longrightarrow> \<not> list_ex (\<lambda>x. f x = v) (remove_first (\<lambda>x. f x = v) xs)"
proof (induction xs)
  case Nil
  then show ?case by simp
next
  case (Cons a xs)
  show ?case
  proof (cases "f a = v")
    case True
    with Cons.prems have "v \<notin> f ` set xs" by auto
    then have "\<not> list_ex (\<lambda>x. f x = v) xs" by (auto simp: list_ex_iff)
    with True show ?thesis by simp
  next
    case False
    with Cons show ?thesis by simp
  qed
qed

lemma unique_ids_remove_first: "unique_ids c \<Longrightarrow> \<not> list_ex (has_id v) (remove_first (has_id v) c)"
  unfolding unique_ids_def has_id_def by (auto dest: remove_first_no_more[where v="Some v"])

lemma updateOne_result:
  assumes "find (has_id (VOid i)) c = Some d"
  shows "updateOne False i (AList.delete ''_id'' body) c =
      (if spread d (AList.delete ''_id'' body) = d
       then (Returned \<lparr>matchedCount = 1, modifiedCount = 0\<rparr>, c)
       else (Returned \<lparr>matchedCount = 1, modifiedCount = 1\<rparr>,
             replace_first (has_id (VOid i)) (spread d (AList.delete ''_id'' body)) c))"
  using assms by (simp add: updateOne_def Let_def spread_keeps_id)

lemma find_after_update:
  assumes "find (has_id (VOid i)) c = Some d"
  shows "find (has_id (VOid i))
           (replace_first (has_id (VOid i)) (spread d (AList.delete ''_id'' body)) c)
         = Some (spread d (AList.delete ''_id'' body))"
proof -
  have "has_id (VOid i) d" using assms by (rule find_has_id)
  then have "has_id (VOid i) (spread d (AList.delete ''_id'' body))"
    by (simp add: has_id_def spread_keeps_id)
  then show ?thesis using assms by (rule find_replace_first)
qed

lemma identifiers_updateOne: "identifiers (snd (updateOne fails i u c)) = identifiers c"
  by (auto simp: updateOne_def identifiers_def Let_def map_replace_first split: option.splits)

section \<open>The handlers on the store\<close>

lemma exec_post:
  "exec (post_tasks body) env c =
     (case insertOne (generated_id env) (insert_fails env) body c of
        (task, Threw, c') \<Rightarrow>
          ([AwaitedInsert task Threw, Responded 500 (error_body ''Internal server error'')], c')
      | (task, Returned result, c') \<Rightarrow>
          (case insertedId result of
             None \<Rightarrow> ([AwaitedInsert task (Returned result),
                        Responded 500 (error_body ''Task creation failed'')], c')
           | Some i \<Rightarrow>
               if truthy i then
                 ([AwaitedInsert task (Returned result),
                   Emitted ''taskAdded'' (VObj (spread [(''_id'', i)] task)),
                   Responded 201 (VObj (spread [(''_id'', i)] task))], c')
               else ([AwaitedInsert task (Returned result),
                      Responded 500 (error_body ''Task creation failed'')], c')))"
  by (simp add: post_tasks_def Let_def split: prod.splits outcome.splits option.splits)

lemma exec_put:
  "ObjectId id_param = Some i \<Longrightarrow>
   exec (put_tasks_id id_param body) env c =
     (case updateOne (update_fails env) i (AList.delete ''_id'' body) c of
        (Threw, c') \<Rightarrow>
          ([AwaitedUpdate i (AList.delete ''_id'' body) Threw,
            Responded 500 (error_body ''Task update failed'')], c')
      | (Returned result, c') \<Rightarrow>
          if modifiedCount result = 0 then
            ([AwaitedUpdate i (AList.delete ''_id'' body) (Returned result),
              Responded 404 (error_body ''Task not found'')], c')
          else
            (case findOne (find_fails env) i c' of
               Threw \<Rightarrow>
                 ([AwaitedUpdate i (AList.delete ''_id'' body) (Returned result),
                   AwaitedFind i Threw,
                   Responded 500 (error_body ''Task update failed'')], c')
             | Returned f \<Rightarrow>
                 ([AwaitedUpdate i (AList.delete ''_id'' body) (Returned result),
                   AwaitedFind i (Returned f),
                   Emitted ''taskUpdated'' (found_value f),
                   Responded 200 (found_value f)], c')))"
  by (simp add: put_tasks_id_def Let_def split: prod.splits outcome.splits)

lemma exec_delete:
  "ObjectId id_param = Some i \<Longrightarrow>
   exec (delete_tasks_id id_param) env c =
     (if delete_fails env then
        ([AwaitedDelete i Threw, Responded 500 (error_body ''Task deletion failed'')], c)
      else if list_ex (has_id (VOid i)) c then
        ([AwaitedDelete i (Returned \<lparr>deletedCount = 1\<rparr>),
          Emitted ''taskDeleted'' (VStr id_param),
          Responded 200 (message_body ''Task deleted successfully'')],
         remove_first (has_id (VOid i)) c)
      else
        ([AwaitedDelete i (Returned \<lparr>deletedCount = 0\<rparr>),
          Responded 404 (error_body ''Task not found'')], c))"
  by (simp add: delete_tasks_id_def deleteOne_def)

text \<open>
  What a handler does on the store is one of its traces under arbitrary outcomes.
\<close>

lemma exec_is_trace: "\<exists>rs. fst (exec (route req) env c) = trace (route req) rs"
proof (cases req)
  case (POST_tasks body)
  obtain task r c' where d: "insertOne (generated_id env) (insert_fails env) body c = (task, r, c')"
    by (cases "insertOne (generated_id env) (insert_fails env) body c")
  then have task: "task = maybeAddId (generated_id env) body"
    by (auto simp: insertOne_def Let_def split: if_splits)
  let ?rs = "\<lparr>generated = generated_id env, insert_reply = r, update_reply = Threw,
              find_reply = Threw, delete_reply = Threw\<rparr>"
  have "fst (exec (post_tasks body) env c) = trace (post_tasks body) ?rs"
    using d task by (auto simp: post_tasks_def Let_def split: prod.splits outcome.splits option.splits)
  then show ?thesis using POST_tasks by auto
next
  case (PUT_tasks_id id_param body)
  show ?thesis
  proof (cases "ObjectId id_param")
    case None
    then have "fst (exec (put_tasks_id id_param body) env c) = trace (put_tasks_id id_param body) rs"
      for rs by (simp add: put_tasks_id_def)
    then show ?thesis using PUT_tasks_id by auto
  next
    case (Some i)
    obtain r c' where d: "updateOne (update_fails env) i (AList.delete ''_id'' body) c = (r, c')"
      by (cases "updateOne (update_fails env) i (AList.delete ''_id'' body) c")
    let ?rs = "\<lparr>generated = generated_id env, insert_reply = Threw, update_reply = r,
                find_reply = findOne (find_fails env) i c', delete_reply = Threw\<rparr>"
    have "fst (exec (put_tasks_id id_param body) env c) = trace (put_tasks_id id_param body) ?rs"
      using d Some by (simp add: put_tasks_id_def split: prod.splits outcome.splits)
    then show ?thesis using PUT_tasks_id by auto
  qed
next
  case (DELETE_tasks_id id_param)
  show ?thesis
  proof (cases "ObjectId id_param")
    case None
    then have "fst (exec (delete_tasks_id id_param) env c) = trace (delete_tasks_id id_param) rs"
      for rs by (simp add: delete_tasks_id_def)
    then show ?thesis using DELETE_tasks_id by auto
  next
    case (Some i)
    obtain r c' where d: "deleteOne (delete_fails env) i c = (r, c')"
      by (cases "deleteOne (delete_fails env) i c")
    let ?rs = "\<lparr>generated = generated_id env, insert_reply = Threw, update_reply = Threw,
                find_reply = Threw, delete_reply = r\<rparr>"
    have "fst (exec (delete_tasks_id id_param) env c) = trace (delete_tasks_id id_param) ?rs"
      using d Some by (simp add: delete_tasks_id_def split: prod.splits outcome.splits)
    then show ?thesis using DELETE_tasks_id by auto
  qed
qed

text \<open>Serving requests keeps the identifiers of the collection unique.\<close>

lemma serve_update_identifiers:
  "is_update req \<Longrightarrow> identifiers (serve req env c) = identifiers c"
proof (cases req)
  case (PUT_tasks_id id_param body)
  show ?thesis
  proof (cases "ObjectId id_param")
    case None
    then show ?thesis using PUT_tasks_id by (simp add: serve_def put_tasks_id_def)
  next
    case (Some i)
    have "snd (exec (put_tasks_id id_param body) env c) =
        snd (updateOne (update_fails env) i (AList.delete ''_id'' body) c)"
      using Some by (simp add: exec_put split: prod.splits outcome.splits)
    then show ?thesis using PUT_tasks_id by (simp add: serve_def identifiers_updateOne)
  qed
qed simp_all

lemma serve_all_updates_identifiers:
  "list_all (\<lambda>(req, env). is_update req) reqs \<Longrightarrow> identifiers (serve_all reqs c) = identifiers c"
  unfolding serve_all_def
  by (induction reqs arbitrary: c) (auto simp: serve_update_identifiers)

lemma unique_ids_serve: "unique_ids c \<Longrightarrow> unique_ids (serve req env c)"
proof (cases req)
  case (POST_tasks body)
  assume u: "unique_ids c"
  show ?thesis
    using u POST_tasks
    by (auto simp: serve_def exec_post insertOne_def Let_def unique_ids_def has_id_def
        map_of_maybeAddId_id list_ex_iff split: outcome.splits option.splits)
next
  case (PUT_tasks_id id_param body)
  assume "unique_ids c"
  then show ?thesis
    using serve_update_identifiers[of req env c] PUT_tasks_id
    by (simp add: unique_ids_def identifiers_def)
next
  case (DELETE_tasks_id id_param)
  assume u: "unique_ids c"
  show ?thesis
  proof (cases "ObjectId id_param")
    case None
    then show ?thesis using u DELETE_tasks_id by (simp add: serve_def delete_tasks_id_def)
  next
    case (Some i)
    then show ?thesis
      using u DELETE_tasks_id
      by (simp add: serve_def exec_delete unique_ids_def distinct_map_remove_first)
  qed
qed

lemma unique_ids_serve_all: "unique_ids c \<Longrightarrow> unique_ids (serve_all reqs c)"
  unfolding serve_all_def
  by (induction reqs arbitrary: c) (auto simp: unique_ids_serve)

lemma unique_ids_from_empty: "unique_ids (serve_all reqs [])"
  by (rule unique_ids_serve_all) (simp add: unique_ids_def)

section \<open>Creating a task\<close>




text \<open>
  C9, as the code has it. \<^verbatim>\<open>POST /tasks\<close> checks no field of the request: when it
  answers 201, the document added to the collection is the request body with an
  identifier, so it has an owner email (\<^verbatim>\<open>userEmail\<close>) exactly when the request has
  one, and the same one.
\<close>

theorem created_task_keeps_submitted_fields:
  assumes "responses (fst (exec (post_tasks body) env c)) = [(201, b)]"
  shows "snd (exec (post_tasks body) env c) = c @ [maybeAddId (generated_id env) body]
       \<and> map_of (maybeAddId (generated_id env) body) ''userEmail'' = map_of body ''userEmail''
       \<and> (\<forall>k. k \<noteq> ''_id'' \<longrightarrow> map_of (maybeAddId (generated_id env) body) k = map_of body k)"
  using assms
  by (auto simp: exec_post insertOne_def Let_def map_of_maybeAddId_other
      split: prod.splits outcome.splits option.splits if_splits)

theorem created_task_keeps_submitted_fields_witness:
  "responses (fst (exec (post_tasks [(''title'', VStr ''T1''), (''userEmail'', VStr ''a@x.com'')])
      no_faults [])) = [(201, added1)]
   \<and> snd (exec (post_tasks [(''title'', VStr ''T1''), (''userEmail'', VStr ''a@x.com'')])
        no_faults []) = [stored1]
   \<and> map_of stored1 ''userEmail'' = Some (VStr ''a@x.com'')"
  using created_task_keeps_submitted_fields
    [of "[(''title'', VStr ''T1''), (''userEmail'', VStr ''a@x.com'')]" no_faults "[]" added1]
  by (simp add: exec_post insertOne_def maybeAddId_def doc_id_def no_faults_def stored1_def
      added1_def spread_def Let_def)

text \<open>
  The claim as stated fails on a request without an owner email: it is answered 201 and
  stored without one.
\<close>

theorem task_without_owner_is_stored:
  "exec (post_tasks [(''title'', VStr ''T1'')]) no_faults [] =
     ([AwaitedInsert [(''title'', VStr ''T1''), (''_id'', VOid oid1)]
         (Returned \<lparr>insertedId = Some (VOid oid1)\<rparr>),
       Emitted ''taskAdded'' (VObj [(''_id'', VOid oid1), (''title'', VStr ''T1'')]),
       Responded 201 (VObj [(''_id'', VOid oid1), (''title'', VStr ''T1'')])],
      [[(''title'', VStr ''T1''), (''_id'', VOid oid1)]])
   \<and> map_of [(''title'', VStr ''T1''), (''_id'', VOid oid1)] ''userEmail'' = None"
  by (simp add: exec_post insertOne_def maybeAddId_def doc_id_def no_faults_def spread_def
      has_id_def Let_def)

section \<open>Deleting a task\<close>

text \<open>
  C4. Two \<^verbatim>\<open>DELETE /tasks/:id\<close> requests for the identifier of a stored task, served
  one after the other with a store that does not fail: the first deletes the task,
  answers 200 and emits one \<^verbatim>\<open>taskDeleted\<close> whose payload is the identifier as it
  stands in the path; the second answers 404 and emits nothing.
\<close>

theorem second_delete_is_not_found:
  assumes "ObjectId id_param = Some i" and "list_ex (has_id (VOid i)) c" and "unique_ids c"
    and "\<not> delete_fails env1" and "\<not> delete_fails env2"
  shows "exec (delete_tasks_id id_param) env1 c =
           ([AwaitedDelete i (Returned \<lparr>deletedCount = 1\<rparr>),
             Emitted ''taskDeleted'' (VStr id_param),
             Responded 200 (message_body ''Task deleted successfully'')],
            remove_first (has_id (VOid i)) c)
       \<and> exec (delete_tasks_id id_param) env2 (remove_first (has_id (VOid i)) c) =
           ([AwaitedDelete i (Returned \<lparr>deletedCount = 0\<rparr>),
             Responded 404 (error_body ''Task not found'')],
            remove_first (has_id (VOid i)) c)"
  using assms by (simp add: exec_delete unique_ids_remove_first)

theorem second_delete_is_not_found_witness:
  "ObjectId id1 = Some oid1
   \<and> list_ex (has_id (VOid oid1)) [stored1]
   \<and> unique_ids [stored1]
   \<and> \<not> delete_fails no_faults
   \<and> exec (delete_tasks_id id1) no_faults [stored1] =
       ([AwaitedDelete oid1 (Returned \<lparr>deletedCount = 1\<rparr>),
         Emitted ''taskDeleted'' (VStr id1),
         Responded 200 (message_body ''Task deleted successfully'')], [])
   \<and> exec (delete_tasks_id id1) no_faults [] =
       ([AwaitedDelete oid1 (Returned \<lparr>deletedCount = 0\<rparr>),
         Responded 404 (error_body ''Task not found'')], [])"
  using second_delete_is_not_found [of id1 oid1 "[stored1]" no_faults no_faults]
  by (simp add: ObjectId_id1 has_id_def stored1_def unique_ids_def no_faults_def)

section \<open>Updating a task\<close>

lemma updateOne_modified:
  "\<exists>r c'. updateOne False i (AList.delete ''_id'' body) c = (Returned r, c')
          \<and> (modifiedCount r = 0) = put_unchanged i body c"
  by (cases "find (has_id (VOid i)) c")
    (auto simp: put_unchanged_def updateOne_result, simp add: updateOne_def)

lemma trace_put:
  "ObjectId id_param = Some i \<Longrightarrow>
   trace (put_tasks_id id_param body) rs =
     AwaitedUpdate i (AList.delete ''_id'' body) (update_reply rs) #
       (case update_reply rs of
          Threw \<Rightarrow> [Responded 500 (error_body ''Task update failed'')]
        | Returned result \<Rightarrow>
            if modifiedCount result = 0 then [Responded 404 (error_body ''Task not found'')]
            else
              (case find_reply rs of
                 Threw \<Rightarrow> [AwaitedFind i Threw, Responded 500 (error_body ''Task update failed'')]
               | Returned f \<Rightarrow>
                   [AwaitedFind i (Returned f), Emitted ''taskUpdated'' (found_value f),
                    Responded 200 (found_value f)]))"
  by (simp add: put_tasks_id_def Let_def split: outcome.splits)

text \<open>
  C2, as the code has it. What \<^verbatim>\<open>PUT /tasks/:id\<close> answers, whatever else is going
  on: 500 \<^verbatim>\<open>Task update failed\<close> with no event when the identifier is malformed or
  a store call throws; 404 \<^verbatim>\<open>Task not found\<close> with no event when the update
  returns \<^verbatim>\<open>modifiedCount\<close> 0; otherwise 200 with the value the re-read
  (\<^verbatim>\<open>findOne\<close>) returned, and one \<^verbatim>\<open>taskUpdated\<close> event with that same value,
  which is \<^verbatim>\<open>null\<close> when the task is gone by then. The store returns
  \<^verbatim>\<open>modifiedCount\<close> 0 exactly when no document has the identifier or the document
  that has it holds the given values already (\<open>put_unchanged\<close>). So for a request
  with a well-formed identifier and store calls that return, served with no other
  request in between: the answer is 404 exactly in these two cases, with no event and
  the collection unchanged; and when a document has the identifier and the update
  changes it, the answer is 200 with the updated document as the store holds it
  afterwards, and the event carries that same document.
\<close>

theorem put_not_found_or_updated:
  "(ObjectId id_param = None \<longrightarrow>
      responses (trace (put_tasks_id id_param body) rs) = [(500, error_body ''Task update failed'')]
    \<and> events (trace (put_tasks_id id_param body) rs) = [])
   \<and> (ObjectId id_param = Some i \<and>
        (update_reply rs = Threw \<or>
         (update_reply rs = Returned r \<and> modifiedCount r \<noteq> 0 \<and> find_reply rs = Threw)) \<longrightarrow>
      responses (trace (put_tasks_id id_param body) rs) = [(500, error_body ''Task update failed'')]
    \<and> events (trace (put_tasks_id id_param body) rs) = [])
   \<and> (ObjectId id_param = Some i \<and> update_reply rs = Returned r \<and> modifiedCount r = 0 \<longrightarrow>
      responses (trace (put_tasks_id id_param body) rs) = [(404, error_body ''Task not found'')]
    \<and> events (trace (put_tasks_id id_param body) rs) = [])
   \<and> (ObjectId id_param = Some i \<and> update_reply rs = Returned r \<and> modifiedCount r \<noteq> 0
        \<and> find_reply rs = Returned f \<longrightarrow>
      responses (trace (put_tasks_id id_param body) rs) = [(200, found_value f)]
    \<and> events (trace (put_tasks_id id_param body) rs) = [(''taskUpdated'', found_value f)])
   \<and> (plain_fields body \<longrightarrow>
      (\<exists>r' c'. updateOne False i (AList.delete ''_id'' body) c = (Returned r', c')
          \<and> (modifiedCount r' = 0) = put_unchanged i body c))
   \<and> (ObjectId id_param = Some i \<and> plain_fields body \<and> \<not> update_fails env \<and> \<not> find_fails env \<longrightarrow>
      (responses (fst (exec (put_tasks_id id_param body) env c)) =
          [(404, error_body ''Task not found'')]) = put_unchanged i body c
    \<and> (put_unchanged i body c \<longrightarrow>
          events (fst (exec (put_tasks_id id_param body) env c)) = []
        \<and> snd (exec (put_tasks_id id_param body) env c) = c)
    \<and> (\<forall>d. find (has_id (VOid i)) c = Some d \<and> spread d (AList.delete ''_id'' body) \<noteq> d \<longrightarrow>
          responses (fst (exec (put_tasks_id id_param body) env c)) =
            [(200, VObj (spread d (AList.delete ''_id'' body)))]
        \<and> events (fst (exec (put_tasks_id id_param body) env c)) =
            [(''taskUpdated'', VObj (spread d (AList.delete ''_id'' body)))]
        \<and> find (has_id (VOid i)) (snd (exec (put_tasks_id id_param body) env c)) =
            Some (spread d (AList.delete ''_id'' body))))"
proof -
  let ?u = "AList.delete ''_id'' body"
  have malformed: "responses (trace (put_tasks_id id_param body) rs) =
        [(500, error_body ''Task update failed'')]
      \<and> events (trace (put_tasks_id id_param body) rs) = []"
    if "ObjectId id_param = None"
    using that by (simp add: put_tasks_id_def)
  have thrown: "responses (trace (put_tasks_id id_param body) rs) =
        [(500, error_body ''Task update failed'')]
      \<and> events (trace (put_tasks_id id_param body) rs) = []"
    if "ObjectId id_param = Some i"
      and "update_reply rs = Threw \<or>
         (update_reply rs = Returned r \<and> modifiedCount r \<noteq> 0 \<and> find_reply rs = Threw)"
    using that by (auto simp: trace_put)
  have unmodified: "responses (trace (put_tasks_id id_param body) rs) =
        [(404, error_body ''Task not found'')]
      \<and> events (trace (put_tasks_id id_param body) rs) = []"
    if "ObjectId id_param = Some i" and "update_reply rs = Returned r" and "modifiedCount r = 0"
    using that by (simp add: trace_put)
  have modified: "responses (trace (put_tasks_id id_param body) rs) = [(200, found_value f)]
      \<and> events (trace (put_tasks_id id_param body) rs) = [(''taskUpdated'', found_value f)]"
    if "ObjectId id_param = Some i" and "update_reply rs = Returned r" and "modifiedCount r \<noteq> 0"
      and "find_reply rs = Returned f"
    using that by (simp add: trace_put)
  have store: "\<exists>r' c'. updateOne False i ?u c = (Returned r', c')
      \<and> (modifiedCount r' = 0) = put_unchanged i body c"
    by (rule updateOne_modified)
  have alone: "(responses (fst (exec (put_tasks_id id_param body) env c)) =
          [(404, error_body ''Task not found'')]) = put_unchanged i body c
    \<and> (put_unchanged i body c \<longrightarrow>
          events (fst (exec (put_tasks_id id_param body) env c)) = []
        \<and> snd (exec (put_tasks_id id_param body) env c) = c)
    \<and> (\<forall>d. find (has_id (VOid i)) c = Some d \<and> spread d ?u \<noteq> d \<longrightarrow>
          responses (fst (exec (put_tasks_id id_param body) env c)) = [(200, VObj (spread d ?u))]
        \<and> events (fst (exec (put_tasks_id id_param body) env c)) =
            [(''taskUpdated'', VObj (spread d ?u))]
        \<and> find (has_id (VOid i)) (snd (exec (put_tasks_id id_param body) env c)) =
            Some (spread d ?u))"
    if ok: "ObjectId id_param = Some i" "\<not> update_fails env" "\<not> find_fails env"
  proof (cases "find (has_id (VOid i)) c")
    case None
    then have "exec (put_tasks_id id_param body) env c =
        ([AwaitedUpdate i ?u (Returned \<lparr>matchedCount = 0, modifiedCount = 0\<rparr>),
          Responded 404 (error_body ''Task not found'')], c)"
      using ok by (simp add: exec_put updateOne_def)
    then show ?thesis using None by (simp add: put_unchanged_def)
  next
    case (Some d)
    show ?thesis
    proof (cases "spread d ?u = d")
      case True
      then have "exec (put_tasks_id id_param body) env c =
          ([AwaitedUpdate i ?u (Returned \<lparr>matchedCount = 1, modifiedCount = 0\<rparr>),
            Responded 404 (error_body ''Task not found'')], c)"
        using ok Some by (simp add: exec_put updateOne_result)
      then show ?thesis using Some True by (simp add: put_unchanged_def)
    next
      case False
      then have "exec (put_tasks_id id_param body) env c =
          ([AwaitedUpdate i ?u (Returned \<lparr>matchedCount = 1, modifiedCount = 1\<rparr>),
            AwaitedFind i (Returned (Some (spread d ?u))),
            Emitted ''taskUpdated'' (VObj (spread d ?u)),
            Responded 200 (VObj (spread d ?u))],
           replace_first (has_id (VOid i)) (spread d ?u) c)"
        using ok Some
        by (simp add: exec_put updateOne_result findOne_def find_after_update found_value_def)
      then show ?thesis using Some False by (simp add: put_unchanged_def find_after_update)
    qed
  qed
  show ?thesis
    using malformed thrown unmodified modified store alone by blast
qed

theorem put_not_found_or_updated_witness:
  "ObjectId ''xyz'' = None
   \<and> responses (trace (put_tasks_id ''xyz'' [(''title'', VStr ''T2'')]) all_return) =
       [(500, error_body ''Task update failed'')]
   \<and> ObjectId id1 = Some oid1
   \<and> update_reply (all_return\<lparr>update_reply := Threw\<rparr>) = Threw
   \<and> responses (trace (put_tasks_id id1 [(''title'', VStr ''T2'')])
        (all_return\<lparr>update_reply := Threw\<rparr>)) = [(500, error_body ''Task update failed'')]
   \<and> update_reply (all_return\<lparr>update_reply := Returned \<lparr>matchedCount = 1, modifiedCount = 0\<rparr>\<rparr>) =
       Returned \<lparr>matchedCount = 1, modifiedCount = 0\<rparr>
   \<and> responses (trace (put_tasks_id id1 [(''title'', VStr ''T2'')])
        (all_return\<lparr>update_reply := Returned \<lparr>matchedCount = 1, modifiedCount = 0\<rparr>\<rparr>)) =
       [(404, error_body ''Task not found'')]
   \<and> update_reply (all_return\<lparr>find_reply := Returned None\<rparr>) =
       Returned \<lparr>matchedCount = 1, modifiedCount = 1\<rparr>
   \<and> find_reply (all_return\<lparr>find_reply := Returned None\<rparr>) = Returned None
   \<and> responses (trace (put_tasks_id id1 [(''title'', VStr ''T2'')])
        (all_return\<lparr>find_reply := Returned None\<rparr>)) = [(200, VNull)]
   \<and> events (trace (put_tasks_id id1 [(''title'', VStr ''T2'')])
        (all_return\<lparr>find_reply := Returned None\<rparr>)) = [(''taskUpdated'', VNull)]
   \<and> plain_fields [(''title'', VStr ''T2'')]
   \<and> updateOne False oid1 (AList.delete ''_id'' [(''title'', VStr ''T2'')]) [stored1] =
       (Returned \<lparr>matchedCount = 1, modifiedCount = 1\<rparr>, [stored2])
   \<and> \<not> put_unchanged oid1 [(''title'', VStr ''T2'')] [stored1]
   \<and> \<not> update_fails no_faults \<and> \<not> find_fails no_faults
   \<and> put_unchanged oid1 [(''title'', VStr ''T2'')] []
   \<and> responses (fst (exec (put_tasks_id id1 [(''title'', VStr ''T2'')]) no_faults [])) =
       [(404, error_body ''Task not found'')]
   \<and> events (fst (exec (put_tasks_id id1 [(''title'', VStr ''T2'')]) no_faults [])) = []
   \<and> find (has_id (VOid oid1)) [stored1] = Some stored1
   \<and> spread stored1 (AList.delete ''_id'' [(''title'', VStr ''T2'')]) = stored2
   \<and> stored2 \<noteq> stored1
   \<and> responses (fst (exec (put_tasks_id id1 [(''title'', VStr ''T2'')]) no_faults [stored1])) =
       [(200, VObj stored2)]
   \<and> events (fst (exec (put_tasks_id id1 [(''title'', VStr ''T2'')]) no_faults [stored1])) =
       [(''taskUpdated'', VObj stored2)]
   \<and> find (has_id (VOid oid1))
        (snd (exec (put_tasks_id id1 [(''title'', VStr ''T2'')]) no_faults [stored1])) =
       Some stored2"
proof -
  have all: ?thesis
    by (simp add: ObjectId_id1 ObjectId_xyz trace_put put_tasks_id_def all_return_def no_faults_def
        plain_fields_def has_id_def stored1_def stored2_def spread_def found_value_def
        put_unchanged_def updateOne_def exec_put findOne_def)
  show ?thesis
    using put_not_found_or_updated [where id_param = "''xyz''" and body = "[(''title'', VStr ''T2'')]"
      and rs = all_return]
    put_not_found_or_updated [where id_param = id1 and body = "[(''title'', VStr ''T2'')]"
      and rs = "all_return\<lparr>update_reply := Threw\<rparr>" and i = oid1]
    put_not_found_or_updated [where id_param = id1 and body = "[(''title'', VStr ''T2'')]"
      and rs = "all_return\<lparr>update_reply := Returned \<lparr>matchedCount = 1, modifiedCount = 0\<rparr>\<rparr>"
      and i = oid1 and r = "\<lparr>matchedCount = 1, modifiedCount = 0\<rparr>"]
    put_not_found_or_updated [where id_param = id1 and body = "[(''title'', VStr ''T2'')]"
      and rs = "all_return\<lparr>find_reply := Returned None\<rparr>" and i = oid1
      and r = "\<lparr>matchedCount = 1, modifiedCount = 1\<rparr>" and f = None
      and c = "[stored1]" and env = no_faults]
    put_not_found_or_updated [where id_param = id1 and body = "[(''title'', VStr ''T2'')]"
      and i = oid1 and c = "[]" and env = no_faults]
    by - (rule all)
qed

text \<open>
  The claim as stated fails in four ways. An update that sets a stored task to the
  values it already has matches the task, and it is answered 404
  \<^verbatim>\<open>Task not found\<close>. A request with a malformed identifier, and a request whose
  update call throws, match no document, and they are answered 500. And an update that
  matched and changed a task which is deleted before the re-read is answered 200 with
  \<^verbatim>\<open>null\<close>, not with the updated task, and so is its event.
\<close>

theorem put_answers_besides_the_claim:
  "find (has_id (VOid oid1)) [stored1] = Some stored1
   \<and> exec (put_tasks_id id1 [(''title'', VStr ''T1'')]) no_faults [stored1] =
       ([AwaitedUpdate oid1 [(''title'', VStr ''T1'')]
           (Returned \<lparr>matchedCount = 1, modifiedCount = 0\<rparr>),
         Responded 404 (error_body ''Task not found'')], [stored1])
   \<and> exec (put_tasks_id ''xyz'' [(''title'', VStr ''T2'')]) no_faults [stored1] =
       ([Responded 500 (error_body ''Task update failed'')], [stored1])
   \<and> exec (put_tasks_id id1 [(''title'', VStr ''T2'')]) (no_faults\<lparr>update_fails := True\<rparr>) [] =
       ([AwaitedUpdate oid1 [(''title'', VStr ''T2'')] Threw,
         Responded 500 (error_body ''Task update failed'')], [])
   \<and> filter (\<lambda>(n, a). n = 1) (log (run (created @
        [Arrive 1 (PUT_tasks_id id1 [(''title'', VStr ''T2'')]), Arrive 2 (DELETE_tasks_id id1),
         Execute 1 no_faults, Resume 1, Execute 2 no_faults, Resume 2,
         Execute 1 no_faults, Resume 1]) initial)) =
       [(1, AwaitedUpdate oid1 [(''title'', VStr ''T2'')]
              (Returned \<lparr>matchedCount = 1, modifiedCount = 1\<rparr>)),
        (1, AwaitedFind oid1 (Returned None)),
        (1, Emitted ''taskUpdated'' VNull), (1, Responded 200 VNull)]"
proof -
  have served: "find (has_id (VOid oid1)) [stored1] = Some stored1
   \<and> exec (put_tasks_id id1 [(''title'', VStr ''T1'')]) no_faults [stored1] =
       ([AwaitedUpdate oid1 [(''title'', VStr ''T1'')]
           (Returned \<lparr>matchedCount = 1, modifiedCount = 0\<rparr>),
         Responded 404 (error_body ''Task not found'')], [stored1])
   \<and> exec (put_tasks_id id1 [(''title'', VStr ''T2'')]) (no_faults\<lparr>update_fails := True\<rparr>) [] =
       ([AwaitedUpdate oid1 [(''title'', VStr ''T2'')] Threw,
         Responded 500 (error_body ''Task update failed'')], [])"
    by (simp add: exec_put ObjectId_id1 updateOne_def has_id_def stored1_def spread_def
        no_faults_def)
  have malformed: "exec (put_tasks_id ''xyz'' [(''title'', VStr ''T2'')]) no_faults [stored1] =
       ([Responded 500 (error_body ''Task update failed'')], [stored1])"
    by (simp add: put_tasks_id_def ObjectId_xyz)
  have between: "filter (\<lambda>(n, a). n = 1) (log (run (created @
        [Arrive 1 (PUT_tasks_id id1 [(''title'', VStr ''T2'')]), Arrive 2 (DELETE_tasks_id id1),
         Execute 1 no_faults, Resume 1, Execute 2 no_faults, Resume 2,
         Execute 1 no_faults, Resume 1]) initial)) =
       [(1, AwaitedUpdate oid1 [(''title'', VStr ''T2'')]
              (Returned \<lparr>matchedCount = 1, modifiedCount = 1\<rparr>)),
        (1, AwaitedFind oid1 (Returned None)),
        (1, Emitted ''taskUpdated'' VNull), (1, Responded 200 VNull)]"
    by (simp add: scenario_defs)
  show ?thesis
    using served malformed between by blast
qed

text \<open>
  C6. \<^verbatim>\<open>PUT /tasks/:id\<close> never passes an \<^verbatim>\<open>_id\<close> field to the store: the fields
  given to \<^verbatim>\<open>$set\<close> are the body without it. And however many update requests
  are served, with whatever bodies, the stored documents keep their identifiers. The
  store itself leaves the identifiers as they are in every update call, whatever it is
  given and whenever it is executed.
\<close>

theorem update_never_changes_identifier:
  "(AwaitedUpdate j u r \<in> set (fst (exec (put_tasks_id id_param body) env c)) \<longrightarrow>
      map_of u ''_id'' = None)
   \<and> (list_all (\<lambda>(req, env). is_update req) reqs \<longrightarrow>
        identifiers (serve_all reqs c) = identifiers c)
   \<and> identifiers (snd (updateOne fails i' u' c')) = identifiers c'"
proof -
  have "map_of u ''_id'' = None"
    if "AwaitedUpdate j u r \<in> set (fst (exec (put_tasks_id id_param body) env c))"
  proof (cases "ObjectId id_param")
    case None
    with that show ?thesis by (simp add: put_tasks_id_def)
  next
    case (Some i)
    with that show ?thesis
      by (auto simp: exec_put delete_conv' split: prod.splits outcome.splits if_splits)
  qed
  then show ?thesis
    using serve_all_updates_identifiers identifiers_updateOne by blast
qed

theorem update_never_changes_identifier_witness:
  "AwaitedUpdate oid1 [(''title'', VStr ''T2'')]
       (Returned \<lparr>matchedCount = 1, modifiedCount = 1\<rparr>)
     \<in> set (fst (exec (put_tasks_id id1 [(''_id'', VStr ''other''), (''title'', VStr ''T2'')])
         no_faults [stored1]))
   \<and> map_of [(''title'', VStr ''T2'')] ''_id'' = None
   \<and> list_all (\<lambda>(req, env). is_update req)
        [(PUT_tasks_id id1 [(''_id'', VStr ''other''), (''title'', VStr ''T2'')], no_faults),
         (PUT_tasks_id id1 [(''title'', VStr ''T3'')], no_faults)]
   \<and> identifiers (serve_all
        [(PUT_tasks_id id1 [(''_id'', VStr ''other''), (''title'', VStr ''T2'')], no_faults),
         (PUT_tasks_id id1 [(''title'', VStr ''T3'')], no_faults)] [stored1]) = [Some (VOid oid1)]
   \<and> identifiers [stored1] = [Some (VOid oid1)]"
  using update_never_changes_identifier [of oid1 "[(''title'', VStr ''T2'')]"
      "Returned \<lparr>matchedCount = 1, modifiedCount = 1\<rparr>" id1
      "[(''_id'', VStr ''other''), (''title'', VStr ''T2'')]" no_faults "[stored1]"
      "[(PUT_tasks_id id1 [(''_id'', VStr ''other''), (''title'', VStr ''T2'')], no_faults),
        (PUT_tasks_id id1 [(''title'', VStr ''T3'')], no_faults)]"]
  by (simp add: exec_put ObjectId_id1 updateOne_def findOne_def has_id_def stored1_def spread_def
      no_faults_def identifiers_def serve_all_def serve_def)

text \<open>
  C7, as the code has it. The update is a \<^verbatim>\<open>$set\<close>: after a \<^verbatim>\<open>PUT /tasks/:id\<close>
  answered 200, every field of the body other than \<^verbatim>\<open>_id\<close> has the body's value in
  the stored document, and every field the body does not have (and \<^verbatim>\<open>_id\<close>) is as it
  was before; the response is that document.
\<close>

theorem update_merges_fields:
  assumes "ObjectId id_param = Some i" and "is_object body" and "plain_fields body"
    and "find (has_id (VOid i)) c = Some d"
    and "responses (fst (exec (put_tasks_id id_param body) env c)) = [(200, b)]"
  shows "\<exists>d'. find (has_id (VOid i)) (snd (exec (put_tasks_id id_param body) env c)) = Some d'
            \<and> b = VObj d'
            \<and> (\<forall>k v. k \<noteq> ''_id'' \<and> map_of body k = Some v \<longrightarrow> map_of d' k = Some v)
            \<and> (\<forall>k. k = ''_id'' \<or> map_of body k = None \<longrightarrow> map_of d' k = map_of d k)"
proof -
  let ?u = "AList.delete ''_id'' body"
  let ?d = "spread d ?u"
  have nf: "\<not> update_fails env"
    using assms(1,5) by (auto simp: exec_put updateOne_def split: if_splits)
  have ex: "exec (put_tasks_id id_param body) env c =
      ([AwaitedUpdate i ?u (Returned \<lparr>matchedCount = 1, modifiedCount = 1\<rparr>),
        AwaitedFind i (Returned (Some ?d)),
        Emitted ''taskUpdated'' (VObj ?d),
        Responded 200 (VObj ?d)], replace_first (has_id (VOid i)) ?d c)"
    using assms(1,4,5) nf
    by (auto simp: exec_put updateOne_result findOne_def find_after_update found_value_def
        split: if_splits)
  have obj: "is_object ?u" using assms(2) by (rule is_object_delete)
  have look: "map_of ?d k = (case map_of ?u k of Some v \<Rightarrow> Some v | None \<Rightarrow> map_of d k)" for k
    using obj by (rule map_of_spread)
  have 1: "map_of ?d k = Some v" if "k \<noteq> ''_id'' \<and> map_of body k = Some v" for k v
    using that by (simp add: look)
  have 2: "map_of ?d k = map_of d k" if "k = ''_id'' \<or> map_of body k = None" for k
    using that by (auto simp: look delete_conv' split: option.splits)
  have "find (has_id (VOid i)) (snd (exec (put_tasks_id id_param body) env c)) = Some ?d"
    using ex assms(4) by (simp add: find_after_update)
  moreover have "b = VObj ?d" using ex assms(5) by simp
  ultimately show ?thesis using 1 2 by blast
qed

theorem update_merges_fields_witness:
  "ObjectId id1 = Some oid1
   \<and> is_object [(''title'', VStr ''T2'')] \<and> plain_fields [(''title'', VStr ''T2'')]
   \<and> find (has_id (VOid oid1)) [stored1] = Some stored1
   \<and> responses (fst (exec (put_tasks_id id1 [(''title'', VStr ''T2'')]) no_faults [stored1])) =
       [(200, VObj stored2)]
   \<and> find (has_id (VOid oid1))
        (snd (exec (put_tasks_id id1 [(''title'', VStr ''T2'')]) no_faults [stored1])) = Some stored2
   \<and> map_of [(''title'', VStr ''T2'')] ''title'' = Some (VStr ''T2'')
   \<and> map_of stored2 ''title'' = Some (VStr ''T2'')
   \<and> map_of [(''title'', VStr ''T2'')] ''userEmail'' = None
   \<and> map_of stored2 ''userEmail'' = map_of stored1 ''userEmail''"
  using update_merges_fields [of id1 oid1 "[(''title'', VStr ''T2'')]" "[stored1]" stored1 no_faults
      "VObj stored2"]
  by (simp add: exec_put ObjectId_id1 updateOne_def findOne_def has_id_def stored1_def stored2_def
      spread_def no_faults_def is_object_def plain_fields_def found_value_def)

text \<open>
  The claim as stated fails on a body that leaves a stored field out: the field is
  retained.
\<close>

theorem update_keeps_absent_field:
  "exec (put_tasks_id id1 [(''title'', VStr ''T2'')]) no_faults [stored1] =
     ([AwaitedUpdate oid1 [(''title'', VStr ''T2'')]
         (Returned \<lparr>matchedCount = 1, modifiedCount = 1\<rparr>),
       AwaitedFind oid1 (Returned (Some stored2)),
       Emitted ''taskUpdated'' (VObj stored2),
       Responded 200 (VObj stored2)],
      [stored2])
   \<and> map_of [(''title'', VStr ''T2'')] ''userEmail'' = None
   \<and> map_of stored1 ''userEmail'' = Some (VStr ''a@x.com'')
   \<and> map_of stored2 ''userEmail'' = Some (VStr ''a@x.com'')"
  by (simp add: exec_put ObjectId_id1 updateOne_def findOne_def spread_def has_id_def
      no_faults_def stored1_def stored2_def found_value_def)

section \<open>Requests in flight together: basic facts\<close>

lemma advance_sockets: "sockets (channel (advance n h s)) = sockets (channel s)"
  by (induction h arbitrary: s) (simp_all add: io_emit_def)

lemma advance_running_other: "m \<noteq> n \<Longrightarrow> running (advance n h s) m = running s m"
  by (induction h arbitrary: s) simp_all

lemma advance_log: "\<exists>l. log (advance n h s) = log s @ l \<and> fst ` set l \<subseteq> {n}"
proof (induction h arbitrary: s)
  case (Emit name payload h)
  obtain l where "log (advance n h (s\<lparr>channel := io_emit name payload (channel s),
           log := log s @ [(n, Emitted name payload)]\<rparr>)) = (log s @ [(n, Emitted name payload)]) @ l"
    and "fst ` set l \<subseteq> {n}"
    using Emit.IH[of "s\<lparr>channel := io_emit name payload (channel s),
           log := log s @ [(n, Emitted name payload)]\<rparr>"] by auto
  then show ?case by (intro exI[of _ "(n, Emitted name payload) # l"]) auto
qed auto

lemma advance_other_silent:
  assumes "m \<noteq> n"
  shows "running (advance n h s) m = running s m
       \<and> (\<exists>l. log (advance n h s) = log s @ l \<and> m \<notin> fst ` set l)"
proof -
  obtain l where "log (advance n h s) = log s @ l" and "fst ` set l \<subseteq> {n}"
    using advance_log by blast
  with assms show ?thesis by (auto simp: advance_running_other)
qed

text \<open>A request served alone does what \<open>exec\<close> says.\<close>

lemma served_alone_post:
  assumes "running s n = None"
  shows "tasks (run [Arrive n (POST_tasks body), Execute n env, Resume n] s) =
           snd (exec (post_tasks body) env (tasks s))
       \<and> log (run [Arrive n (POST_tasks body), Execute n env, Resume n] s) =
           log s @ map (Pair n) (fst (exec (post_tasks body) env (tasks s)))"
proof -
  obtain task r c' where
    d: "insertOne (generated_id env) (insert_fails env) body (tasks s) = (task, r, c')"
    by (cases "insertOne (generated_id env) (insert_fails env) body (tasks s)")
  show ?thesis
  proof (cases r)
    case Threw
    with assms d show ?thesis by (simp add: post_tasks_def)
  next
    case (Returned result)
    show ?thesis
    proof (cases "insertedId result")
      case None
      with Returned assms d show ?thesis by (simp add: post_tasks_def)
    next
      case (Some i)
      with Returned assms d show ?thesis by (simp add: post_tasks_def Let_def)
    qed
  qed
qed

lemma served_alone_put:
  assumes "running s n = None"
  shows "tasks (run [Arrive n (PUT_tasks_id id_param body),
             Execute n env, Resume n, Execute n env, Resume n] s) =
           snd (exec (put_tasks_id id_param body) env (tasks s))
       \<and> log (run [Arrive n (PUT_tasks_id id_param body),
             Execute n env, Resume n, Execute n env, Resume n] s) =
           log s @ map (Pair n) (fst (exec (put_tasks_id id_param body) env (tasks s)))"
proof (cases "ObjectId id_param")
  case None
  with assms show ?thesis by (simp add: put_tasks_id_def)
next
  case (Some i)
  obtain r c' where
    d: "updateOne (update_fails env) i (AList.delete ''_id'' body) (tasks s) = (r, c')"
    by (cases "updateOne (update_fails env) i (AList.delete ''_id'' body) (tasks s)")
  show ?thesis
  proof (cases r)
    case Threw
    with assms Some d show ?thesis by (simp add: put_tasks_id_def)
  next
    case (Returned result)
    show ?thesis
    proof (cases "modifiedCount result = 0")
      case True
      with Returned assms Some d show ?thesis by (simp add: put_tasks_id_def)
    next
      case False
      show ?thesis
      proof (cases "findOne (find_fails env) i c'")
        case Threw
        with False Returned assms Some d show ?thesis by (simp add: put_tasks_id_def)
      next
        case (Returned f)
        with False \<open>r = Returned result\<close> assms Some d show ?thesis
          by (simp add: put_tasks_id_def)
      qed
    qed
  qed
qed

lemma served_alone_delete:
  assumes "running s n = None"
  shows "tasks (run [Arrive n (DELETE_tasks_id id_param), Execute n env, Resume n] s) =
           snd (exec (delete_tasks_id id_param) env (tasks s))
       \<and> log (run [Arrive n (DELETE_tasks_id id_param), Execute n env, Resume n] s) =
           log s @ map (Pair n) (fst (exec (delete_tasks_id id_param) env (tasks s)))"
proof (cases "ObjectId id_param")
  case None
  with assms show ?thesis by (simp add: delete_tasks_id_def)
next
  case (Some i)
  obtain r c' where d: "deleteOne (delete_fails env) i (tasks s) = (r, c')"
    by (cases "deleteOne (delete_fails env) i (tasks s)")
  show ?thesis
  proof (cases r)
    case Threw
    with assms Some d show ?thesis by (simp add: delete_tasks_id_def)
  next
    case (Returned result)
    with assms Some d show ?thesis by (simp add: delete_tasks_id_def)
  qed
qed

text \<open>A finished handler stays finished and does nothing more.\<close>

lemma finished_step:
  assumes "running s p = Some Finished"
  shows "running (step e s) p = Some Finished
       \<and> (\<exists>l. log (step e s) = log s @ l \<and> p \<notin> fst ` set l)"
proof (cases e)
  case (Arrive n req)
  show ?thesis
  proof (cases "running s n")
    case None
    then have "p \<noteq> n" using assms by auto
    then show ?thesis using Arrive None assms advance_other_silent[of p n "route req" s] by simp
  next
    case (Some w)
    then show ?thesis using Arrive assms by simp
  qed
next
  case (Execute n env)
  then show ?thesis using assms
    by (auto split: option.splits suspended.splits prod.splits)
next
  case (Resume n)
  show ?thesis
  proof (cases "running s n")
    case None
    then show ?thesis using Resume assms by simp
  next
    case (Some w)
    show ?thesis
    proof (cases w)
      case (Arriving a h)
      then have pn: "p \<noteq> n" using assms Some by auto
      obtain l where l: "log (advance n h (s\<lparr>log := log s @ [(n, a)]\<rparr>)) = (log s @ [(n, a)]) @ l"
        "p \<notin> fst ` set l"
        and r: "running (advance n h (s\<lparr>log := log s @ [(n, a)]\<rparr>)) p = running s p"
        using advance_other_silent[OF pn, of h "s\<lparr>log := log s @ [(n, a)]\<rparr>"] by auto
      have "log (step e s) = log s @ ((n, a) # l)" using Resume Some Arriving l by simp
      moreover have "p \<notin> fst ` set ((n, a) # l)" using l pn by auto
      moreover have "running (step e s) p = Some Finished"
        using Resume Some Arriving r assms by simp
      ultimately show ?thesis by blast
    qed (use Resume Some assms in simp_all)
  qed
next
  case (Channel ce)
  then show ?thesis using assms by simp
qed

lemma finished_run:
  "running s p = Some Finished \<Longrightarrow>
   running (run evs s) p = Some Finished \<and> (\<exists>l. log (run evs s) = log s @ l \<and> p \<notin> fst ` set l)"
proof (induction evs arbitrary: s)
  case Nil
  then show ?case by simp
next
  case (Cons e evs)
  from finished_step[OF Cons.prems, of e] obtain l where
    f: "running (step e s) p = Some Finished" and l: "log (step e s) = log s @ l" "p \<notin> fst ` set l"
    by blast
  from Cons.IH[OF f] obtain l' where
    "running (run evs (step e s)) p = Some Finished"
    "log (run evs (step e s)) = log (step e s) @ l'" "p \<notin> fst ` set l'"
    by blast
  with l show ?case by (intro conjI exI[of _ "l @ l'"]) auto
qed

lemma resume_emits:
  assumes "running s n = Some (Arriving a (Emit name v (Respond code b)))"
  shows "step (Resume n) s =
      s\<lparr>channel := io_emit name v (channel s),
        log := log s @ [(n, a), (n, Emitted name v), (n, Responded code b)],
        running := (running s)(n \<mapsto> Finished)\<rparr>"
  using assms by simp

section \<open>What connections are sent\<close>

lemma inbox_io_emit_other:
  "c \<notin> fst ` set (sockets (channel s)) \<Longrightarrow>
   inbox c (s\<lparr>channel := io_emit name payload (channel s), log := l\<rparr>) = inbox c s"
  by (force simp: inbox_def io_emit_def filter_empty_conv)

lemma advance_inbox_other:
  "c \<notin> fst ` set (sockets (channel s)) \<Longrightarrow> inbox c (advance n h s) = inbox c s"
proof (induction h arbitrary: s)
  case (Emit name payload h)
  let ?s = "s\<lparr>channel := io_emit name payload (channel s),
              log := log s @ [(n, Emitted name payload)]\<rparr>"
  have "c \<notin> fst ` set (sockets (channel ?s))" using Emit.prems by (simp add: io_emit_def)
  then have "inbox c (advance n h ?s) = inbox c ?s" by (rule Emit.IH)
  then show ?case using Emit.prems by (simp add: inbox_io_emit_other)
qed (simp_all add: inbox_def)

lemma inbox_io_emit:
  assumes "distinct (map fst (sockets (channel s)))"
  shows "inbox c (s\<lparr>channel := io_emit name v (channel s), log := l, running := r\<rparr>) =
     inbox c s @ (if c \<in> fst ` set (sockets (channel s)) then [(name, v)] else [])"
proof -
  have "distinct (map fst xs) \<Longrightarrow>
      map snd (filter (\<lambda>(c', packet). c' = c) (map (\<lambda>(c, email). (c, name, v)) xs)) =
        (if c \<in> fst ` set xs then [(name, v)] else [])" for xs :: "(conn \<times> val) list"
    by (induction xs) (auto simp: filter_empty_conv image_iff)
  from this[OF assms] show ?thesis
    by (simp add: inbox_def io_emit_def)
qed

lemma advance_inbox_mono: "\<exists>m. inbox c (advance n h s) = inbox c s @ m"
proof (induction h arbitrary: s)
  case (Emit name payload h)
  let ?s = "s\<lparr>channel := io_emit name payload (channel s),
              log := log s @ [(n, Emitted name payload)]\<rparr>"
  obtain m where "inbox c (advance n h ?s) = inbox c ?s @ m" using Emit.IH by blast
  moreover have "\<exists>m'. inbox c ?s = inbox c s @ m'" by (simp add: inbox_def io_emit_def)
  ultimately show ?case by auto
qed (simp_all add: inbox_def)

lemma step_inbox_mono: "\<exists>m. inbox c (step e s) = inbox c s @ m"
proof (cases e)
  case (Arrive n req)
  then show ?thesis using advance_inbox_mono[of c n "route req" s] by (simp split: option.splits)
next
  case (Execute n env)
  then show ?thesis by (auto simp: inbox_def split: option.splits suspended.splits prod.splits)
next
  case (Resume n)
  have "inbox c (s\<lparr>log := l\<rparr>) = inbox c s" for l by (simp add: inbox_def)
  then show ?thesis
    using Resume advance_inbox_mono[of c n _ "s\<lparr>log := _\<rparr>"]
    by (auto split: option.splits suspended.splits)
next
  case (Channel ce)
  then show ?thesis
    by (cases ce) (auto simp: inbox_def close_connection_def split: sum.splits)
qed

lemma run_inbox_mono: "\<exists>m. inbox c (run evs s) = inbox c s @ m"
proof (induction evs arbitrary: s)
  case (Cons e evs)
  obtain m where "inbox c (step e s) = inbox c s @ m" using step_inbox_mono by blast
  moreover obtain m' where "inbox c (run evs (step e s)) = inbox c (step e s) @ m'"
    using Cons.IH by blast
  ultimately show ?case by simp
qed simp

lemma distinct_sockets_step:
  "distinct (map fst (sockets (channel s))) \<Longrightarrow> distinct (map fst (sockets (channel (step e s))))"
proof (cases e)
  case (Channel ce)
  assume "distinct (map fst (sockets (channel s)))"
  then show ?thesis using Channel
    by (cases ce) (auto simp: distinct_map_filter close_connection_def split: sum.splits)
qed (auto simp: advance_sockets split: option.splits suspended.splits prod.splits)

lemma distinct_sockets_run:
  "distinct (map fst (sockets (channel s))) \<Longrightarrow> distinct (map fst (sockets (channel (run evs s))))"
  by (induction evs arbitrary: s) (auto simp: distinct_sockets_step)

lemma distinct_sockets_reachable: "distinct (map fst (sockets (channel (run evs initial))))"
  by (rule distinct_sockets_run) (simp add: initial_def)

section \<open>Connections without an identity claim\<close>

lemma refused_advance: "refused c s \<Longrightarrow> refused c (advance n h s)"
  by (simp add: refused_def advance_sockets advance_inbox_other)

lemma refused_channel_step:
  assumes "refused c s" and "\<And>auth. e = Connect c auth \<Longrightarrow> map_of auth ''email'' = None"
  shows "refused c (s\<lparr>channel := channel_step e (channel s)\<rparr>)"
proof (cases e)
  case (Open c')
  with assms(1) show ?thesis by (simp add: refused_def inbox_def)
next
  case (Connect c' auth)
  show ?thesis
  proof (cases "c' = c")
    case True
    with Connect assms(2) have "auth_middleware auth = Inl ''Unauthorized''"
      by (simp add: auth_middleware_def)
    with assms(1) Connect True show ?thesis by (auto simp: refused_def inbox_def)
  next
    case False
    with assms(1) Connect show ?thesis
      by (auto simp: refused_def inbox_def close_connection_def split: sum.splits)
  qed
next
  case (Close c')
  with assms(1) show ?thesis by (auto simp: refused_def inbox_def close_connection_def)
qed

lemma refused_step:
  assumes "refused c s"
    and "\<And>auth. e = Channel (Connect c auth) \<Longrightarrow> map_of auth ''email'' = None"
  shows "refused c (step e s)"
proof (cases e)
  case (Arrive n req)
  with assms(1) show ?thesis by (simp add: refused_advance split: option.splits)
next
  case (Execute n env)
  have "refused c (s\<lparr>tasks := c', running := r\<rparr>)" for c' r
    using assms(1) by (simp add: refused_def inbox_def)
  with assms(1) Execute show ?thesis
    by (simp split: option.splits suspended.splits prod.splits)
next
  case (Resume n)
  have "refused c (s\<lparr>log := l\<rparr>)" for l
    using assms(1) by (simp add: refused_def inbox_def)
  with assms(1) Resume show ?thesis
    by (simp add: refused_advance split: option.splits suspended.splits)
next
  case (Channel ce)
  with assms show ?thesis by (simp add: refused_channel_step)
qed

lemma refused_run:
  "refused c s \<Longrightarrow>
   (\<forall>auth. Channel (Connect c auth) \<in> set evs \<longrightarrow> map_of auth ''email'' = None) \<Longrightarrow>
   refused c (run evs s)"
  by (induction evs arbitrary: s) (auto simp: refused_step)

lemma advance_clients: "clients (channel (advance n h s)) = clients (channel s)"
  by (induction h arbitrary: s) (simp_all add: io_emit_def)

lemma open_until_closed_step:
  assumes "c \<in> set (clients (channel s))" and "c \<notin> fst ` set (sockets (channel s))"
    and "e \<noteq> Channel (Close c)"
  shows "c \<in> set (clients (channel (step e s)))"
proof (cases e)
  case (Channel ce)
  with assms show ?thesis
    by (cases ce) (auto simp: close_connection_def split: sum.splits)
qed (use assms in \<open>auto simp: advance_clients split: option.splits suspended.splits prod.splits\<close>)

lemma open_until_closed:
  "c \<in> set (clients (channel s)) \<Longrightarrow> refused c s \<Longrightarrow>
   (\<forall>auth. Channel (Connect c auth) \<in> set evs \<longrightarrow> map_of auth ''email'' = None) \<Longrightarrow>
   Channel (Close c) \<notin> set evs \<Longrightarrow>
   c \<in> set (clients (channel (run evs s)))"
proof (induction evs arbitrary: s)
  case Nil
  then show ?case by simp
next
  case (Cons e evs)
  have 1: "c \<in> set (clients (channel (step e s)))"
    using Cons.prems by (intro open_until_closed_step) (auto simp: refused_def)
  have 2: "refused c (step e s)"
    using Cons.prems by (intro refused_step) auto
  show ?case
    using Cons.IH[OF 1 2] Cons.prems by simp
qed

text \<open>
  C5, as the code has it. Take any course of events from the start of the server in
  which connection \<open>c\<close> never sends an email (nor a \<^verbatim>\<open>pid\<close>) with its request to
  join. The middleware answers each such request with the error \<^verbatim>\<open>Unauthorized\<close>;
  \<open>c\<close> is never a socket of the main namespace; and all it is ever sent are these
  refusals, so no \<^verbatim>\<open>taskAdded\<close>, \<^verbatim>\<open>taskUpdated\<close> or \<^verbatim>\<open>taskDeleted\<close>. But from the
  moment its transport connection is opened until it is closed, \<open>c\<close> is one of the
  \<open>clients\<close>, whose number the health check reports as \<^verbatim>\<open>websockets\<close>.
\<close>

theorem unclaimed_connection_never_active:
  assumes "\<forall>auth. Channel (Connect c auth) \<in> set evs \<longrightarrow>
             map_of auth ''email'' = None \<and> map_of auth ''pid'' = None"
  shows "c \<notin> fst ` set (sockets (channel (run evs initial)))
       \<and> (\<forall>p\<in>set (inbox c (run evs initial)).
             p = (''connect_error'', VObj [(''message'', VStr ''Unauthorized'')]))
       \<and> (\<forall>auth. map_of auth ''email'' = None \<longrightarrow> auth_middleware auth = Inl ''Unauthorized'')
       \<and> (\<forall>evs' evs''. evs = evs' @ Channel (Open c) # evs'' \<and> Channel (Close c) \<notin> set evs'' \<longrightarrow>
             c \<in> set (clients (channel (run evs initial))))"
proof -
  have noemail: "\<forall>auth. Channel (Connect c auth) \<in> set evs \<longrightarrow> map_of auth ''email'' = None"
    using assms by blast
  have "refused c initial" by (simp add: refused_def initial_def inbox_def)
  then have "refused c (run evs initial)" using noemail by (rule refused_run)
  moreover have "c \<in> set (clients (channel (run evs initial)))"
    if evs: "evs = evs' @ Channel (Open c) # evs''" and "Channel (Close c) \<notin> set evs''"
    for evs' evs''
  proof -
    let ?s = "step (Channel (Open c)) (run evs' initial)"
    have "refused c initial" by (simp add: refused_def initial_def inbox_def)
    then have "refused c (run (evs' @ [Channel (Open c)]) initial)"
      using noemail evs by (intro refused_run) auto
    then have "refused c ?s" by simp
    moreover have "c \<in> set (clients (channel ?s))" by simp
    ultimately have "c \<in> set (clients (channel (run evs'' ?s)))"
      using that noemail by (intro open_until_closed) auto
    then show ?thesis using evs by simp
  qed
  ultimately show ?thesis by (simp add: refused_def auth_middleware_def)
qed

theorem unclaimed_connection_never_active_witness:
  "map_of ([] :: doc) ''email'' = None
   \<and> map_of ([] :: doc) ''pid'' = None
   \<and> auth_middleware [] = Inl ''Unauthorized''
   \<and> sockets (channel (run knock initial)) = [(8, VStr ''a@x.com'')]
   \<and> inbox 7 (run knock initial) =
       [(''connect_error'', VObj [(''message'', VStr ''Unauthorized'')])]
   \<and> inbox 8 (run knock initial) = [(''taskAdded'', added1)]
   \<and> knock = [] @ Channel (Open 7) # tl knock
   \<and> Channel (Close 7) \<notin> set (tl knock)
   \<and> clients (channel (run knock initial)) = [7, 8]"
  using unclaimed_connection_never_active [of 7 knock]
  by (simp add: scenario_defs)

text \<open>
  The claim as stated fails on the count: the health check reports
  \<^verbatim>\<open>io.engine.clientsCount\<close>, the number of open transport connections, and a
  connection is one of them from the moment it is opened, before and after the
  middleware has refused it.
\<close>

theorem refused_connection_is_counted:
  "sockets (channel (run [Channel (Open 7), Channel (Connect 7 [])] initial)) = []
   \<and> inbox 7 (run [Channel (Open 7), Channel (Connect 7 [])] initial) =
       [(''connect_error'', VObj [(''message'', VStr ''Unauthorized'')])]
   \<and> get_root (Some True) (channel (run [Channel (Open 7), Channel (Connect 7 [])] initial)) =
       Inr (Respond 200 (VObj [(''status'', VStr ''ok''), (''mongo'', VStr ''connected''),
                               (''websockets'', VNum 1)]))"
  by (simp add: scenario_defs get_root_def)

section \<open>The order of events\<close>

text \<open>
  C8, as the code has it. Events reach the sockets in the order in which the handlers
  emit them, and the handler of \<^verbatim>\<open>PUT /tasks/:id\<close> emits \<^verbatim>\<open>taskUpdated\<close> when the
  reply of its re-read (\<^verbatim>\<open>findOne\<close>) arrives, not when the update returns. So in any
  course of events from the start of the server: if the reply of the re-read of update
  \<open>p\<close> arrives before the reply of the \<^verbatim>\<open>deleteOne\<close> of delete \<open>d\<close>, then
  \<^verbatim>\<open>taskUpdated\<close> of \<open>p\<close> is emitted before \<^verbatim>\<open>taskDeleted\<close> of \<open>d\<close>, \<open>p\<close> emits
  nothing afterwards, and every connection is sent the two events it is sent in that
  order.
\<close>

theorem events_follow_order_of_emission:
  assumes pd: "p \<noteq> d"
    and P: "running (run evs1 initial) p =
        Some (Arriving (AwaitedFind i (Returned f))
          (Emit ''taskUpdated'' (found_value f) (Respond 200 (found_value f))))"
    and D: "running (run (evs1 @ Resume p # evs2) initial) d =
        Some (Arriving (AwaitedDelete j (Returned r))
          (Emit ''taskDeleted'' (VStr id_param)
            (Respond 200 (message_body ''Task deleted successfully''))))"
  shows "(\<exists>l1 l2 l3.
           log (run (evs1 @ Resume p # evs2 @ Resume d # evs3) initial) =
             l1 @ (p, Emitted ''taskUpdated'' (found_value f)) # l2
                @ (d, Emitted ''taskDeleted'' (VStr id_param)) # l3
           \<and> (\<forall>name payload.
                 (p, Emitted name payload) \<notin> set l2 \<and> (p, Emitted name payload) \<notin> set l3))
       \<and> (\<forall>c. \<exists>m.
           inbox c (run (evs1 @ Resume p # evs2 @ [Resume d]) initial) =
             inbox c (run evs1 initial)
             @ (if c \<in> fst ` set (sockets (channel (run evs1 initial)))
                then [(''taskUpdated'', found_value f)] else [])
             @ m
             @ (if c \<in> fst ` set (sockets (channel (run (evs1 @ Resume p # evs2) initial)))
                then [(''taskDeleted'', VStr id_param)] else []))"
proof -
  define s1 where "s1 = run evs1 initial"
  define sA where "sA = step (Resume p) s1"
  define s2 where "s2 = run evs2 sA"
  define sB where "sB = step (Resume d) s2"
  let ?upd = "Emitted ''taskUpdated'' (found_value f)"
  let ?del = "Emitted ''taskDeleted'' (VStr id_param)"
  let ?ok = "Responded 200 (message_body ''Task deleted successfully'')"
  have P': "running s1 p = Some (Arriving (AwaitedFind i (Returned f))
          (Emit ''taskUpdated'' (found_value f) (Respond 200 (found_value f))))"
    using P by (simp add: s1_def)
  have D': "running s2 d = Some (Arriving (AwaitedDelete j (Returned r))
          (Emit ''taskDeleted'' (VStr id_param)
            (Respond 200 (message_body ''Task deleted successfully''))))"
    using D by (simp add: s1_def sA_def s2_def)
  have sA: "sA = s1\<lparr>channel := io_emit ''taskUpdated'' (found_value f) (channel s1),
        log := log s1 @ [(p, AwaitedFind i (Returned f)), (p, ?upd),
                         (p, Responded 200 (found_value f))],
        running := (running s1)(p \<mapsto> Finished)\<rparr>"
    unfolding sA_def using P' by (rule resume_emits)
  have sB: "sB = s2\<lparr>channel := io_emit ''taskDeleted'' (VStr id_param) (channel s2),
        log := log s2 @ [(d, AwaitedDelete j (Returned r)), (d, ?del), (d, ?ok)],
        running := (running s2)(d \<mapsto> Finished)\<rparr>"
    unfolding sB_def using D' by (rule resume_emits)
  have finA: "running sA p = Some Finished" by (simp add: sA)
  obtain l2 where fin2: "running s2 p = Some Finished"
    and l2: "log s2 = log sA @ l2" "p \<notin> fst ` set l2"
    using finished_run[OF finA, of evs2] by (auto simp: s2_def)
  have finB: "running sB p = Some Finished" using fin2 pd by (simp add: sB)
  obtain l3 where l3: "log (run evs3 sB) = log sB @ l3" "p \<notin> fst ` set l3"
    using finished_run[OF finB, of evs3] by auto
  have final: "run (evs1 @ Resume p # evs2 @ Resume d # evs3) initial = run evs3 sB"
    by (simp add: s1_def sA_def s2_def sB_def)
  let ?l1 = "log s1 @ [(p, AwaitedFind i (Returned f))]"
  let ?l2 = "(p, Responded 200 (found_value f)) # l2 @ [(d, AwaitedDelete j (Returned r))]"
  let ?l3 = "(d, ?ok) # l3"
  have "log (run evs3 sB) = ?l1 @ (p, ?upd) # ?l2 @ (d, ?del) # ?l3"
    using l3(1) l2(1) by (simp add: sA sB)
  moreover have "(p, Emitted name payload) \<notin> set ?l2 \<and> (p, Emitted name payload) \<notin> set ?l3"
    for name payload
    using l2(2) l3(2) pd by (auto simp: image_iff)
  ultimately have first: "\<exists>l1 l2 l3.
           log (run (evs1 @ Resume p # evs2 @ Resume d # evs3) initial) =
             l1 @ (p, ?upd) # l2 @ (d, ?del) # l3
           \<and> (\<forall>name payload.
                 (p, Emitted name payload) \<notin> set l2 \<and> (p, Emitted name payload) \<notin> set l3)"
    unfolding final by blast
  have second: "\<exists>m.
           inbox c (run (evs1 @ Resume p # evs2 @ [Resume d]) initial) =
             inbox c (run evs1 initial)
             @ (if c \<in> fst ` set (sockets (channel (run evs1 initial)))
                then [(''taskUpdated'', found_value f)] else [])
             @ m
             @ (if c \<in> fst ` set (sockets (channel (run (evs1 @ Resume p # evs2) initial)))
                then [(''taskDeleted'', VStr id_param)] else [])" for c
  proof -
    have d1: "distinct (map fst (sockets (channel s1)))"
      unfolding s1_def by (rule distinct_sockets_reachable)
    have d2: "distinct (map fst (sockets (channel s2)))"
      unfolding s2_def sA_def s1_def using distinct_sockets_reachable[of "evs1 @ Resume p # evs2"]
      by simp
    have a: "inbox c sA = inbox c s1 @
        (if c \<in> fst ` set (sockets (channel s1)) then [(''taskUpdated'', found_value f)] else [])"
      unfolding sA using d1 by (rule inbox_io_emit)
    obtain m where m: "inbox c s2 = inbox c sA @ m"
      unfolding s2_def using run_inbox_mono by blast
    have b: "inbox c sB = inbox c s2 @
        (if c \<in> fst ` set (sockets (channel s2)) then [(''taskDeleted'', VStr id_param)] else [])"
      unfolding sB using d2 by (rule inbox_io_emit)
    have e1: "run (evs1 @ Resume p # evs2 @ [Resume d]) initial = sB"
      by (simp add: s1_def sA_def s2_def sB_def)
    have e2: "run (evs1 @ Resume p # evs2) initial = s2"
      by (simp add: s1_def sA_def s2_def)
    have e3: "run evs1 initial = s1"
      by (simp only: s1_def)
    have "inbox c sB = inbox c s1
        @ (if c \<in> fst ` set (sockets (channel s1)) then [(''taskUpdated'', found_value f)] else [])
        @ m
        @ (if c \<in> fst ` set (sockets (channel s2)) then [(''taskDeleted'', VStr id_param)] else [])"
      using a b m by simp
    then show ?thesis
      by (subst e1, subst e2, subst e3, subst e3) (rule exI)
  qed
  show ?thesis using first second by blast
qed

theorem events_follow_order_of_emission_witness:
  "(1::nat) \<noteq> 2
   \<and> running (run (created @
        [Arrive 1 (PUT_tasks_id id1 [(''title'', VStr ''T2'')]), Arrive 2 (DELETE_tasks_id id1),
         Execute 1 no_faults, Resume 1, Execute 1 no_faults]) initial) 1 =
       Some (Arriving (AwaitedFind oid1 (Returned (Some stored2)))
         (Emit ''taskUpdated'' (found_value (Some stored2))
            (Respond 200 (found_value (Some stored2)))))
   \<and> running (run ((created @
        [Arrive 1 (PUT_tasks_id id1 [(''title'', VStr ''T2'')]), Arrive 2 (DELETE_tasks_id id1),
         Execute 1 no_faults, Resume 1, Execute 1 no_faults]) @ Resume 1 # [Execute 2 no_faults])
        initial) 2 =
       Some (Arriving (AwaitedDelete oid1 (Returned \<lparr>deletedCount = 1\<rparr>))
         (Emit ''taskDeleted'' (VStr id1)
            (Respond 200 (message_body ''Task deleted successfully''))))
   \<and> inbox 1 (run ((created @
        [Arrive 1 (PUT_tasks_id id1 [(''title'', VStr ''T2'')]), Arrive 2 (DELETE_tasks_id id1),
         Execute 1 no_faults, Resume 1, Execute 1 no_faults]) @ Resume 1 # [Execute 2 no_faults]
        @ [Resume 2]) initial) =
       [(''taskAdded'', added1), (''taskUpdated'', VObj stored2), (''taskDeleted'', VStr id1)]"
  using events_follow_order_of_emission [of 1 2
      "created @ [Arrive 1 (PUT_tasks_id id1 [(''title'', VStr ''T2'')]),
         Arrive 2 (DELETE_tasks_id id1), Execute 1 no_faults, Resume 1, Execute 1 no_faults]"
      oid1 "Some stored2" "[Execute 2 no_faults]" oid1 "\<lparr>deletedCount = 1\<rparr>" id1 "[]"]
  by (simp add: scenario_defs)

text \<open>
  The claim as stated fails when the reply of the delete arrives between the reply of
  the update and the reply of the update's re-read: the delete's call has returned
  after the update's call, and the socket is sent \<^verbatim>\<open>taskDeleted\<close> before
  \<^verbatim>\<open>taskUpdated\<close>. In the first course of events the re-read is executed after the
  delete and finds nothing; in the second it is executed before the delete and its
  reply arrives after the delete's.
\<close>

theorem updated_after_deleted:
  "log (run (created @
      [Arrive 1 (PUT_tasks_id id1 [(''title'', VStr ''T2'')]), Arrive 2 (DELETE_tasks_id id1),
       Execute 1 no_faults, Resume 1, Execute 2 no_faults, Resume 2,
       Execute 1 no_faults, Resume 1]) initial) =
     [(0, AwaitedInsert stored1 (Returned \<lparr>insertedId = Some (VOid oid1)\<rparr>)),
      (0, Emitted ''taskAdded'' added1), (0, Responded 201 added1),
      (1, AwaitedUpdate oid1 [(''title'', VStr ''T2'')]
            (Returned \<lparr>matchedCount = 1, modifiedCount = 1\<rparr>)),
      (2, AwaitedDelete oid1 (Returned \<lparr>deletedCount = 1\<rparr>)),
      (2, Emitted ''taskDeleted'' (VStr id1)),
      (2, Responded 200 (message_body ''Task deleted successfully'')),
      (1, AwaitedFind oid1 (Returned None)),
      (1, Emitted ''taskUpdated'' VNull), (1, Responded 200 VNull)]
   \<and> inbox 1 (run (created @
      [Arrive 1 (PUT_tasks_id id1 [(''title'', VStr ''T2'')]), Arrive 2 (DELETE_tasks_id id1),
       Execute 1 no_faults, Resume 1, Execute 2 no_faults, Resume 2,
       Execute 1 no_faults, Resume 1]) initial) =
     [(''taskAdded'', added1), (''taskDeleted'', VStr id1), (''taskUpdated'', VNull)]
   \<and> inbox 1 (run (created @
      [Arrive 1 (PUT_tasks_id id1 [(''title'', VStr ''T2'')]), Arrive 2 (DELETE_tasks_id id1),
       Execute 1 no_faults, Resume 1, Execute 1 no_faults, Execute 2 no_faults, Resume 2,
       Resume 1]) initial) =
     [(''taskAdded'', added1), (''taskDeleted'', VStr id1), (''taskUpdated'', VObj stored2)]"
  by (simp add: scenario_defs)

end
